theory Spec2Isabelle
  imports Complex_Main "HOL-Library.AList" "HOL-Library.Log_Nat"
begin

section \<open>Python values, tables and errors\<close>

text \<open>
  A DataFrame is a list of column labels and a list of rows; a row is its index label and
  its cells, one per column. A cell is \<open>None\<close> where pandas holds NaN and \<open>Some v\<close>
  where it holds the value \<open>v\<close>.
\<close>

datatype 'c table = Table (columns: "string list") (rows: "(int \<times> 'c list) list")

text \<open>
  The values the code handles: what \<open>json.loads\<close> returns, and DataFrames. A float is
  a finite binary64 number, held as the rational it denotes (the infinities are left out,
  and NaN occurs only as the empty cell of a table). A Python dict is an association list
  in insertion order; a lookup takes the first entry of a key, an assignment replaces the
  entry in place or appends one (\<open>AList.update\<close>).
\<close>

datatype pyval =
    PNone
  | PBool bool
  | PInt int
  | PFloat rat
  | PStr string
  | PList "pyval list"
  | PDict "(string \<times> pyval) list"
  | PFrame "pyval option table"

type_synonym dict = "(string \<times> pyval) list"
type_synonym frame = "pyval option table"

definition is_frame :: "pyval \<Rightarrow> bool" where
  "is_frame v = (case v of PFrame df \<Rightarrow> True | _ \<Rightarrow> False)"

definition frame_of :: "pyval \<Rightarrow> frame" where
  "frame_of v = (case v of PFrame df \<Rightarrow> df | _ \<Rightarrow> Table [] [])"

text \<open>
  The exceptions of the code. \<open>ApiException\<close> carries the argument it is raised with.
  \<open>OtherError\<close> is an exception of the transport (connection, decoding).
  \<open>NotModelled\<close> marks the behaviour of pandas and pydantic the model does not
  describe (column labels that repeat, cells that are no numbers in a comparison, a table
  built from a value that is not a list of records, a lookup in the schema that finds a
  method): no result below states it.
\<close>

datatype error =
    ApiException dict
  | AttributeError
  | KeyError
  | TypeError
  | ValueError
  | ZeroDivisionError
  | OverflowError
  | OtherError string
  | NotModelled

section \<open>The schema configuration\<close>

record SeatGeekDataStructure =
  events :: "string list"
  performers :: "string list"
  stats :: "string list"
  venues :: "string list"

text \<open>The default of \<open>ScalpyrPro.__init__\<close>.\<close>

definition default_structure :: SeatGeekDataStructure where
  "default_structure =
     \<lparr> events = [''type'', ''id'', ''datetime_utc'', ''venue'', ''performers'',
                  ''short_title'', ''stats'', ''url'', ''score'', ''announce_date'',
                  ''status'', ''access_method'', ''visible_at''],
       performers = [''type'', ''name'', ''id'', ''has_upcoming_events'', ''primary'',
                     ''url'', ''score'', ''slug'', ''num_upcoming_events''],
       stats = [''listing_count'', ''average_price'', ''median_price'', ''lowest_price'',
                ''highest_price''],
       venues = [''state'', ''postal_code'', ''name'', ''timezone'', ''url'', ''score'',
                 ''location'', ''country'', ''num_upcoming_events'', ''city'', ''slug'',
                 ''id'', ''access_method'', ''metro_code'', ''capacity''] \<rparr>"

text \<open>
  \<open>getattr(self.sg_data_structure, req_type)\<close>. The four fields give their lists. A
  pydantic model has further attributes, which \<open>getattr\<close> returns: the methods of
  \<open>BaseModel\<close> (\<open>copy\<close>, \<open>dict\<close>, \<open>json\<close>, ... and, in version 2, the names
  that begin with \<open>model_\<close>) and names that begin with an underscore. What the code
  does with such a value is not described. Any other name is no attribute and raises
  AttributeError.
\<close>

definition other_attribute :: "string \<Rightarrow> bool" where
  "other_attribute name =
     (take 1 name = ''_'' \<or> take 6 name = ''model_'' \<or>
      name \<in> set [''Config'', ''construct'', ''copy'', ''dict'', ''fields'', ''from_orm'',
                    ''json'', ''parse_file'', ''parse_obj'', ''parse_raw'', ''schema'',
                    ''schema_json'', ''update_forward_refs'', ''validate''])"

definition getattr_structure :: "SeatGeekDataStructure \<Rightarrow> string \<Rightarrow> error + string list" where
  "getattr_structure sg name =
     (if name = ''events'' then Inr (events sg)
      else if name = ''performers'' then Inr (performers sg)
      else if name = ''stats'' then Inr (stats sg)
      else if name = ''venues'' then Inr (venues sg)
      else if other_attribute name then Inl NotModelled
      else Inl AttributeError)"

section \<open>The pandas operations the code uses\<close>

text \<open>The labels of a list, each once, in the order of first appearance.\<close>

fun first_seen :: "'a list \<Rightarrow> 'a list \<Rightarrow> 'a list" where
  "first_seen seen [] = []"
| "first_seen seen (x # xs) =
     (if x \<in> set seen then first_seen seen xs else x # first_seen (x # seen) xs)"

text \<open>A RangeIndex: the rows numbered from \<open>i\<close>.\<close>

fun number_from :: "int \<Rightarrow> 'a list \<Rightarrow> (int \<times> 'a) list" where
  "number_from i [] = []"
| "number_from i (x # xs) = (i, x) # number_from (i + 1) xs"

definition is_record :: "pyval \<Rightarrow> bool" where
  "is_record v = (case v of PDict d \<Rightarrow> True | _ \<Rightarrow> False)"

definition fields_of :: "pyval \<Rightarrow> dict" where
  "fields_of v = (case v of PDict d \<Rightarrow> d | _ \<Rightarrow> [])"

text \<open>
  \<open>pd.DataFrame.from_dict(records)\<close> for a list of dicts: the columns are the keys of
  the records in the order of first appearance and the index is 0, 1, .... A record
  without a key leaves a gap in that column. On construction pandas chooses a type for
  each column from all its values and converts the values to it: in a column of integers
  with a gap the integers become floats and the gap NaN, and what happens to a null
  beside numbers or strings depends on the version of pandas. This conversion is the
  parameter \<open>convert\<close>: \<open>convert column v\<close> is the cell pandas stores for the raw
  entry \<open>v\<close> (\<open>None\<close> for a gap) of a column whose raw entries are \<open>column\<close>.
\<close>

type_synonym conversion = "pyval option list \<Rightarrow> pyval option \<Rightarrow> pyval option"

definition raw_column :: "pyval list \<Rightarrow> string \<Rightarrow> pyval option list" where
  "raw_column rs c = map (\<lambda>r. map_of (fields_of r) c) rs"

definition from_dict :: "conversion \<Rightarrow> pyval \<Rightarrow> error + frame" where
  "from_dict convert v =
     (case v of
        PList rs \<Rightarrow>
          (if list_all is_record rs then
             (let cols = first_seen [] (concat (map (\<lambda>r. map fst (fields_of r)) rs))
              in Inr (Table cols
                   (number_from 0
                      (map (\<lambda>r. map (\<lambda>c. convert (raw_column rs c) (map_of (fields_of r) c)) cols)
                         rs))))
           else Inl NotModelled)
      | _ \<Rightarrow> Inl NotModelled)"

text \<open>The cell of a row under a column label (NaN where the row is too short).\<close>

definition cell_at :: "string list \<Rightarrow> 'c option list \<Rightarrow> string \<Rightarrow> 'c option" where
  "cell_at cols cells c = (case map_of (zip cols cells) c of Some v \<Rightarrow> v | None \<Rightarrow> None)"

text \<open>
  \<open>df[columns]\<close> with a list of labels: KeyError when a label is no column of the
  table, else the table of these columns in the order of the list.
\<close>

definition df_select :: "frame \<Rightarrow> string list \<Rightarrow> error + frame" where
  "df_select df cols =
     (if \<not> distinct (columns df) then Inl NotModelled
      else if list_all (\<lambda>c. c \<in> set (columns df)) cols then
        Inr (Table cols
              (map (\<lambda>(i, cells). (i, map (cell_at (columns df) cells) cols)) (rows df)))
      else Inl KeyError)"

section \<open>The projection: \<open>ScalpyrPro._send_request\<close>\<close>

text \<open>
  \<open>response[key]\<close> on a dict.
\<close>

definition dict_get :: "dict \<Rightarrow> string \<Rightarrow> error + pyval" where
  "dict_get d k = (case map_of d k of None \<Rightarrow> Inl KeyError | Some v \<Rightarrow> Inr v)"

text \<open>
  The base class is not part of the sources: \<open>super()._send_request\<close> is the parameter
  \<open>super_send\<close>, taking the state of the world (the remote service) and returning its
  answer, a dict or an exception, with the new state. The arguments \<open>req_args\<close> and
  \<open>req_id\<close> are only handed on. \<open>convert\<close> is the conversion of pandas described
  above.
\<close>

definition send_request ::
  "(string \<Rightarrow> 'a \<Rightarrow> 'b \<Rightarrow> 'w \<Rightarrow> (error + dict) \<times> 'w) \<Rightarrow> conversion \<Rightarrow>
   SeatGeekDataStructure \<Rightarrow> string \<Rightarrow> 'a \<Rightarrow> 'b \<Rightarrow> 'w \<Rightarrow> (error + dict) \<times> 'w" where
  "send_request super_send convert sg req_type req_args req_id w =
     (case super_send req_type req_args req_id w of
        (Inl e, w') \<Rightarrow> (Inl e, w')
      | (Inr response, w') \<Rightarrow>
          (if req_type \<notin> set (map fst response) then (Inl (ApiException response), w')
           else
             (case getattr_structure sg req_type of
                Inl e \<Rightarrow> (if e = KeyError then (Inl (ApiException response), w') else (Inl e, w'))
              | Inr cols \<Rightarrow>
                  (case dict_get response req_type of
                     Inl e \<Rightarrow> (Inl e, w')
                   | Inr records \<Rightarrow>
                       (case from_dict convert records of
                          Inl e \<Rightarrow> (Inl e, w')
                        | Inr df \<Rightarrow>
                            (case df_select df cols of
                               Inl e \<Rightarrow> (Inl e, w')
                             | Inr df' \<Rightarrow>
                                 (Inr (AList.update req_type (PFrame df') response), w')))))))"

section \<open>Calls of the base class\<close>

text \<open>
  The methods \<open>get_events\<close>, \<open>get_performers\<close> and \<open>get_venues\<close> belong to the
  base class, which is not part of the sources: they are parameters, functions from the
  filter dict and the state of the world to a result or an exception and the new state.
  The state of a run records the world, the calls of these methods in the order they
  were made, and what was printed.
\<close>

record 'w io =
  world :: 'w
  calls :: "(string \<times> dict) list"
  stdout :: "string list"

definition invoke ::
  "string \<Rightarrow> (dict \<Rightarrow> 'w \<Rightarrow> (error + 'r) \<times> 'w) \<Rightarrow> dict \<Rightarrow> 'w io \<Rightarrow> (error + 'r) \<times> 'w io" where
  "invoke name f args s =
     (case f args (world s) of
        (r, w') \<Rightarrow> (r, s\<lparr>world := w', calls := calls s @ [(name, args)]\<rparr>))"

section \<open>Id lists\<close>

text \<open>
  \<open>IdList = typing.Union[pd.Series, typing.List[str]]\<close>: a column of ids (integers or
  strings) or a list of strings.
\<close>

datatype idval = IdInt int | IdStr string

datatype IdList = Series "idval list" | StrList "string list"

definition digit_char :: "nat \<Rightarrow> char" where
  "digit_char n = ''0123456789'' ! (n mod 10)"

function str_nat :: "nat \<Rightarrow> string" where
  "str_nat n = (if n < 10 then [digit_char n] else str_nat (n div 10) @ [digit_char (n mod 10)])"
  by pat_completeness auto
termination
  by (relation "measure (\<lambda>n. n)") auto

declare str_nat.simps [simp del]

definition str_int :: "int \<Rightarrow> string" where
  "str_int i = (if i < 0 then CHR ''-'' # str_nat (nat (- i)) else str_nat (nat i))"

text \<open>\<open>ids.astype(str)\<close>, element by element.\<close>

definition astype_str :: "idval \<Rightarrow> string" where
  "astype_str v = (case v of IdInt i \<Rightarrow> str_int i | IdStr x \<Rightarrow> x)"

text \<open>\<open>sep.join(xs)\<close>.\<close>

fun str_join :: "string \<Rightarrow> string list \<Rightarrow> string" where
  "str_join sep [] = []"
| "str_join sep [x] = x"
| "str_join sep (x # y # ys) = x @ sep @ str_join sep (y # ys)"

text \<open>The first four lines of \<open>get_by_id\<close> and of \<open>get_events_by\<close>.\<close>

definition join_ids :: "IdList \<Rightarrow> string" where
  "join_ids ids =
     (case ids of
        Series xs \<Rightarrow> str_join '','' (map astype_str xs)
      | StrList xs \<Rightarrow> str_join '','' xs)"

section \<open>\<open>ScalpyrPro.get_by_id\<close>\<close>


section \<open>True division of integers and \<open>math.ceil\<close>\<close>

text \<open>
  Python's \<open>a / b\<close> on integers is the quotient rounded to the nearest binary64 number,
  ties to the even significand; \<open>math.ceil\<close> of that float is an integer. A float is
  modelled by the rational it denotes. For a positive quotient \<open>x\<close> with
  \<open>2^e \<le> x < 2^(e+1)\<close> the floats around \<open>x\<close> are the multiples of \<open>2^(e-52)\<close>
  (of \<open>2^(-1074)\<close> below \<open>2^(-1022)\<close>); a result of \<open>2^1024\<close> or more raises
  OverflowError.
\<close>

definition pow2 :: "int \<Rightarrow> rat" where
  "pow2 k = (if 0 \<le> k then 2 ^ nat k else 1 / 2 ^ nat (- k))"

text \<open>The \<open>e\<close> with \<open>2^e \<le> a / b < 2^(e+1)\<close>, for positive \<open>a\<close> and \<open>b\<close>.\<close>

definition floor_log2_quot :: "int \<Rightarrow> int \<Rightarrow> int" where
  "floor_log2_quot a b =
     (let k = bitlen a - bitlen b
      in if pow2 k * of_int b \<le> of_int a then k else k - 1)"

definition round_half_even :: "rat \<Rightarrow> int" where
  "round_half_even r =
     (let f = \<lfloor>r\<rfloor>; d = r - of_int f
      in if d < 1 / 2 then f
         else if 1 / 2 < d then f + 1
         else if even f then f else f + 1)"

definition int_truediv :: "int \<Rightarrow> int \<Rightarrow> error + rat" where
  "int_truediv a b =
     (if b = 0 then Inl ZeroDivisionError
      else if a = 0 then Inr 0
      else
        (let m = \<bar>a\<bar>; n = \<bar>b\<bar>;
             e = max (floor_log2_quot m n) (- 1022);
             q = pow2 (e - 52);
             y = of_int (round_half_even (of_int m / of_int n / q)) * q
         in if pow2 1024 \<le> y then Inl OverflowError
            else Inr (of_int (sgn a * sgn b) * y)))"

text \<open>An operand of \<open>/\<close>: an int, or a bool (which Python counts as 0 or 1).\<close>

definition as_int :: "pyval \<Rightarrow> int option" where
  "as_int v =
     (case v of PInt i \<Rightarrow> Some i | PBool b \<Rightarrow> Some (if b then 1 else 0) | _ \<Rightarrow> None)"

text \<open>
  With a float among the operands Python converts an int operand to the nearest float
  (OverflowError when it is too large) and divides the floats: the quotient of the two
  rationals, rounded as above. A zero divisor is a ZeroDivisionError; a quotient too large
  for a float is infinite, and \<open>math.ceil\<close> of it an OverflowError.
\<close>

definition is_float :: "pyval \<Rightarrow> bool" where
  "is_float v = (case v of PFloat x \<Rightarrow> True | _ \<Rightarrow> False)"

definition to_double :: "pyval \<Rightarrow> error + rat" where
  "to_double v =
     (case v of
        PFloat x \<Rightarrow> Inr x
      | _ \<Rightarrow> (case as_int v of None \<Rightarrow> Inl TypeError | Some i \<Rightarrow> int_truediv i 1))"

definition float_truediv :: "rat \<Rightarrow> rat \<Rightarrow> error + rat" where
  "float_truediv x y =
     (case quotient_of x of
        (p, q) \<Rightarrow> (case quotient_of y of (p', q') \<Rightarrow> int_truediv (p * q') (q * p')))"

text \<open>
  \<open>math.ceil(x / y)\<close>. An operand that is None, a string, a list or a dict ends in
  TypeError; the arithmetic of pandas on a table is not described.
\<close>

definition ceil_truediv :: "pyval \<Rightarrow> pyval \<Rightarrow> error + int" where
  "ceil_truediv x y =
     (if is_frame x \<or> is_frame y then Inl NotModelled
      else if is_float x \<or> is_float y then
        (case to_double x of
           Inl e \<Rightarrow> Inl e
         | Inr a \<Rightarrow>
             (case to_double y of
                Inl e \<Rightarrow> Inl e
              | Inr b \<Rightarrow>
                  (case float_truediv a b of Inl e \<Rightarrow> Inl e | Inr q \<Rightarrow> Inr \<lceil>q\<rceil>)))
      else
        (case as_int x of
           None \<Rightarrow> Inl TypeError
         | Some a \<Rightarrow>
             (case as_int y of
                None \<Rightarrow> Inl TypeError
              | Some b \<Rightarrow>
                  (case int_truediv a b of Inl e \<Rightarrow> Inl e | Inr q \<Rightarrow> Inr \<lceil>q\<rceil>))))"

section \<open>The pager: \<open>ScalpyrPro.get_events_by\<close>\<close>

text \<open>\<open>v[key]\<close> with a string key.\<close>

definition py_getitem :: "pyval \<Rightarrow> string \<Rightarrow> error + pyval" where
  "py_getitem v k =
     (case v of
        PDict d \<Rightarrow> dict_get d k
      | PFrame df \<Rightarrow> Inl NotModelled
      | _ \<Rightarrow> Inl TypeError)"

text \<open>
  \<open>ScalpyrPro._get_events_by\<close>: the filter dict of one page and the call of
  \<open>get_events\<close>.
\<close>

definition page_request :: "string \<Rightarrow> string \<Rightarrow> pyval \<Rightarrow> int \<Rightarrow> pyval \<Rightarrow> dict" where
  "page_request lookup_field ids per_page page_num event_type =
     (let req = (if event_type = PNone then [] else [(''type'', event_type)]);
          req = AList.update lookup_field (PStr ids) req;
          req = AList.update ''per_page'' per_page req;
          req = AList.update ''page'' (PInt page_num) req
      in req)"

definition helper_get_events_by ::
  "(dict \<Rightarrow> 'w \<Rightarrow> (error + dict) \<times> 'w) \<Rightarrow> string \<Rightarrow> string \<Rightarrow> pyval \<Rightarrow> int \<Rightarrow> pyval \<Rightarrow>
   'w io \<Rightarrow> (error + dict) \<times> 'w io" where
  "helper_get_events_by get_events lookup_field ids per_page page_num event_type s =
     invoke ''get_events'' get_events
       (page_request lookup_field ids per_page page_num event_type) s"

text \<open>
  Lines 189 to 191: the total, the page size and the number of pages, read from the
  metadata of the first response.
\<close>

definition page_info :: "dict \<Rightarrow> error + pyval \<times> int" where
  "page_info resp =
     (case dict_get resp ''meta'' of
        Inl e \<Rightarrow> Inl e
      | Inr meta \<Rightarrow>
          (case py_getitem meta ''total'' of
             Inl e \<Rightarrow> Inl e
           | Inr total_records \<Rightarrow>
               (case py_getitem meta ''per_page'' of
                  Inl e \<Rightarrow> Inl e
                | Inr per_page \<Rightarrow>
                    (case ceil_truediv total_records per_page of
                       Inl e \<Rightarrow> Inl e
                     | Inr total_pages \<Rightarrow> Inr (per_page, total_pages)))))"

text \<open>
  The while loop; \<open>fetch\<close> is the call of \<open>_get_events_by\<close> with everything but the
  page number fixed.
\<close>

function page_loop ::
  "(int \<Rightarrow> 'w io \<Rightarrow> (error + dict) \<times> 'w io) \<Rightarrow> int \<Rightarrow> int \<Rightarrow> dict \<Rightarrow> pyval list \<Rightarrow> 'w io \<Rightarrow>
   (error + dict \<times> pyval list) \<times> 'w io" where
  "page_loop fetch total_pages page_num resp events_tables s =
     (if page_num \<le> total_pages then
        (case fetch page_num s of
           (Inl e, s') \<Rightarrow> (Inl e, s')
         | (Inr resp', s') \<Rightarrow>
             (case dict_get resp' ''events'' of
                Inl e \<Rightarrow> (Inl e, s')
              | Inr ev \<Rightarrow>
                  page_loop fetch total_pages (page_num + 1) resp' (events_tables @ [ev]) s'))
      else (Inr (resp, events_tables), s))"
  by pat_completeness auto
termination
  by (relation "measure (\<lambda>(fetch, total_pages, page_num, resp, events_tables, s).
        nat (total_pages + 1 - page_num))") auto

declare page_loop.simps [simp del]

text \<open>
  \<open>pd.concat\<close>. Tables with the same column labels are stacked; tables whose labels
  differ are laid on the union of the labels, in the order of first appearance, with NaN
  where a table has no such column. With \<open>ignore_index\<close> the rows are numbered anew.
  An empty list is a ValueError.
\<close>

definition reindex_columns :: "string list \<Rightarrow> frame \<Rightarrow> (int \<times> pyval option list) list" where
  "reindex_columns cols df =
     map (\<lambda>(i, cells). (i, map (cell_at (columns df) cells) cols)) (rows df)"

definition concat_frames :: "frame list \<Rightarrow> bool \<Rightarrow> error + frame" where
  "concat_frames dfs ignore_index =
     (case dfs of
        [] \<Rightarrow> Inl ValueError
      | df # _ \<Rightarrow>
          (let renumber = (\<lambda>rs. if ignore_index then number_from 0 (map snd rs) else rs)
           in if list_all (\<lambda>d. columns d = columns df) dfs then
                Inr (Table (columns df) (renumber (concat (map rows dfs))))
              else if list_all (\<lambda>d. distinct (columns d)) dfs then
                (let cols = first_seen [] (concat (map columns dfs))
                 in Inr (Table cols (renumber (concat (map (reindex_columns cols) dfs)))))
              else Inl NotModelled))"

text \<open>
  \<open>pd.concat(objs)\<close> on a list of Python values: None entries are dropped, a list
  that is empty before or after that is a ValueError, and an entry that is no table is a
  TypeError.
\<close>

definition pd_concat :: "pyval list \<Rightarrow> error + frame" where
  "pd_concat objs =
     (if objs = [] then Inl ValueError
      else
        (let objs' = filter (\<lambda>v. v \<noteq> PNone) objs
         in if objs' = [] then Inl ValueError
            else if list_all is_frame objs' then concat_frames (map frame_of objs') False
            else Inl TypeError))"

text \<open>The filter key of \<open>get_events_by\<close> for a join field.\<close>

definition lookup_field_of :: "string \<Rightarrow> string" where
  "lookup_field_of req_type = (if req_type = ''events'' then ''id'' else req_type @ ''.id'')"

definition get_events_by ::
  "(dict \<Rightarrow> 'w \<Rightarrow> (error + dict) \<times> 'w) \<Rightarrow> string \<Rightarrow> IdList \<Rightarrow> pyval \<Rightarrow> pyval \<Rightarrow> 'w io \<Rightarrow>
   (error + dict) \<times> 'w io" where
  "get_events_by get_events req_type ids per_page event_type s =
     (let ids' = join_ids ids;
          lookup_field = lookup_field_of req_type
      in case helper_get_events_by get_events lookup_field ids' per_page 1 event_type s of
           (Inl e, s1) \<Rightarrow> (Inl e, s1)
         | (Inr resp, s1) \<Rightarrow>
             (case page_info resp of
                Inl e \<Rightarrow> (Inl e, s1)
              | Inr (per_page', total_pages) \<Rightarrow>
                  (case dict_get resp ''events'' of
                     Inl e \<Rightarrow> (Inl e, s1)
                   | Inr ev \<Rightarrow>
                       (case page_loop
                               (\<lambda>page_num. helper_get_events_by get_events lookup_field ids'
                                  per_page' page_num event_type)
                               total_pages 2 resp [ev] s1 of
                          (Inl e, s2) \<Rightarrow> (Inl e, s2)
                        | (Inr (resp', events_tables), s2) \<Rightarrow>
                            (case pd_concat events_tables of
                               Inl e \<Rightarrow> (Inl e, s2)
                             | Inr df \<Rightarrow>
                                 (Inr (AList.update ''events'' (PFrame df) resp'), s2))))))"

section \<open>The venue resolver: \<open>ScalpyrPro.get_venue_ids\<close>\<close>

text \<open>
  \<open>venue_data.name\<close> for a column label: the column as a Series (index and values).
  A value that is no table has no such attribute.
\<close>

definition df_getattr :: "frame \<Rightarrow> string \<Rightarrow> error + (int \<times> pyval option) list" where
  "df_getattr df name =
     (if name \<notin> set (columns df) then Inl AttributeError
      else if \<not> distinct (columns df) then Inl NotModelled
      else Inr (map (\<lambda>(i, cells). (i, cell_at (columns df) cells name)) (rows df)))"

definition getattr_column :: "pyval \<Rightarrow> string \<Rightarrow> error + (int \<times> pyval option) list" where
  "getattr_column v name =
     (case v of PFrame df \<Rightarrow> df_getattr df name | _ \<Rightarrow> Inl AttributeError)"

text \<open>\<open>series > 0\<close>, element by element: NaN compares false.\<close>

definition cell_gt_zero :: "pyval option \<Rightarrow> error + bool" where
  "cell_gt_zero c =
     (case c of
        None \<Rightarrow> Inr False
      | Some (PInt n) \<Rightarrow> Inr (0 < n)
      | Some (PFloat x) \<Rightarrow> Inr (0 < x)
      | Some (PBool b) \<Rightarrow> Inr b
      | Some _ \<Rightarrow> Inl NotModelled)"

fun gt_zero_mask :: "(int \<times> pyval option) list \<Rightarrow> error + bool list" where
  "gt_zero_mask [] = Inr []"
| "gt_zero_mask ((i, c) # xs) =
     (case cell_gt_zero c of
        Inl e \<Rightarrow> Inl e
      | Inr b \<Rightarrow> (case gt_zero_mask xs of Inl e \<Rightarrow> Inl e | Inr bs \<Rightarrow> Inr (b # bs)))"

text \<open>\<open>df.loc[mask]\<close>: the rows whose mask is true, with their index labels.\<close>

definition df_loc :: "frame \<Rightarrow> bool list \<Rightarrow> frame" where
  "df_loc df flags = Table (columns df) (map fst (filter snd (zip (rows df) flags)))"

text \<open>
  Lines 126 to 133, the body of the loop after a search that returned: the table to
  append, if any.
\<close>

definition venue_rows :: "string \<Rightarrow> pyval \<Rightarrow> error + frame option" where
  "venue_rows venue venue_data =
     (case getattr_column venue_data ''id'' of
        Inl e \<Rightarrow> Inl e
      | Inr ids \<Rightarrow>
          (if 0 < length ids then
             (case getattr_column venue_data ''num_upcoming_events'' of
                Inl e \<Rightarrow> Inl e
              | Inr upcoming \<Rightarrow>
                  (case gt_zero_mask upcoming of
                     Inl e \<Rightarrow> Inl e
                   | Inr flags \<Rightarrow>
                       (let kept = df_loc (frame_of venue_data) flags
                        in case df_getattr kept ''name'' of
                             Inl e \<Rightarrow> Inl e
                           | Inr names \<Rightarrow>
                               (case df_getattr kept ''id'' of
                                  Inl e \<Rightarrow> Inl e
                                | Inr kept_ids \<Rightarrow>
                                    Inr (Some (Table [''venue'', ''venue_id'', ''searched_venue'']
                                      (map (\<lambda>((i, n), (j, d)). (i, [n, d, Some (PStr venue)]))
                                         (zip names kept_ids))))))))
           else Inr None))"

text \<open>The for loop: the tables collected and the names whose search failed.\<close>

fun venue_loop ::
  "(dict \<Rightarrow> 'w \<Rightarrow> (error + pyval) \<times> 'w) \<Rightarrow> string list \<Rightarrow> frame list \<Rightarrow> string list \<Rightarrow> 'w io \<Rightarrow>
   (error + frame list \<times> string list) \<times> 'w io" where
  "venue_loop get_venues [] all_venue_data venue_search_failed s =
     (Inr (all_venue_data, venue_search_failed), s)"
| "venue_loop get_venues (venue # rest) all_venue_data venue_search_failed s =
     (case invoke ''get_venues'' get_venues [(''name'', PStr venue)] s of
        (Inl e, s') \<Rightarrow>
          (case e of
             ApiException r \<Rightarrow>
               venue_loop get_venues rest all_venue_data (venue_search_failed @ [venue]) s'
           | _ \<Rightarrow> (Inl e, s'))
      | (Inr venue_data, s') \<Rightarrow>
          (case venue_rows venue venue_data of
             Inl e \<Rightarrow> (Inl e, s')
           | Inr None \<Rightarrow> venue_loop get_venues rest all_venue_data venue_search_failed s'
           | Inr (Some venue_data_df) \<Rightarrow>
               venue_loop get_venues rest (all_venue_data @ [venue_data_df])
                 venue_search_failed s'))"

definition get_venue_ids ::
  "(dict \<Rightarrow> 'w \<Rightarrow> (error + pyval) \<times> 'w) \<Rightarrow> string list \<Rightarrow> 'w io \<Rightarrow> (error + frame) \<times> 'w io" where
  "get_venue_ids get_venues venue_names s =
     (case venue_loop get_venues venue_names [] [] s of
        (Inl e, s') \<Rightarrow> (Inl e, s')
      | (Inr (all_venue_data, venue_search_failed), s') \<Rightarrow>
          (let s'' = (if 0 < length venue_search_failed then
                        s'\<lparr>stdout := stdout s' @
                          [''Could not find venues: '' @ [CHR 0x0A] @
                           str_join [CHR 0x0A] venue_search_failed]\<rparr>
                      else s')
           in (concat_frames all_venue_data True, s'')))"

section \<open>Resource kinds\<close>

text \<open>
  The four resource kinds of the schema, the key each has in a response, and the column
  list the schema configures for it.
\<close>

datatype ResourceKind = Events | Performers | Venues | Stats

definition kind_name :: "ResourceKind \<Rightarrow> string" where
  "kind_name k =
     (case k of Events \<Rightarrow> ''events'' | Performers \<Rightarrow> ''performers''
      | Venues \<Rightarrow> ''venues'' | Stats \<Rightarrow> ''stats'')"

definition configured_columns :: "SeatGeekDataStructure \<Rightarrow> ResourceKind \<Rightarrow> string list" where
  "configured_columns sg k =
     (case k of Events \<Rightarrow> events sg | Performers \<Rightarrow> performers sg
      | Venues \<Rightarrow> venues sg | Stats \<Rightarrow> stats sg)"

text \<open>
  For the concrete runs: the conversion of columns that pandas stores as they are, such as
  a column of integers or of strings without a gap.
\<close>

definition keep_values :: conversion where
  "keep_values column v = v"

section \<open>Runs of the base methods\<close>

text \<open>
  The statements below speak of what the base methods answer. \<open>run_calls f reqs w\<close>
  makes the calls \<open>reqs\<close> one after the other from the world \<open>w\<close>: it gives the
  answers and the world after the last call.
\<close>

fun run_calls ::
  "(dict \<Rightarrow> 'w \<Rightarrow> (error + 'r) \<times> 'w) \<Rightarrow> dict list \<Rightarrow> 'w \<Rightarrow> (error + 'r) list \<times> 'w" where
  "run_calls f [] w = ([], w)"
| "run_calls f (args # rest) w =
     (case f args w of
        (r, w') \<Rightarrow> (case run_calls f rest w' of (rs, w'') \<Rightarrow> (r # rs, w'')))"

text \<open>A page fetch that succeeds: a response with an \<open>events\<close> entry.\<close>

definition page_ok :: "error + dict \<Rightarrow> bool" where
  "page_ok r = (case r of Inl e \<Rightarrow> False | Inr resp \<Rightarrow> ''events'' \<in> set (map fst resp))"

definition response_of :: "error + dict \<Rightarrow> dict" where
  "response_of r = (case r of Inl e \<Rightarrow> [] | Inr resp \<Rightarrow> resp)"

definition events_of :: "dict \<Rightarrow> pyval" where
  "events_of resp = (case map_of resp ''events'' of None \<Rightarrow> PNone | Some v \<Rightarrow> v)"

text \<open>A page fetch that returns a table with the column labels \<open>cols\<close>.\<close>

definition page_table_ok :: "string list \<Rightarrow> error + dict \<Rightarrow> bool" where
  "page_table_ok cols r =
     (case r of
        Inl e \<Rightarrow> False
      | Inr resp \<Rightarrow>
          (case map_of resp ''events'' of Some (PFrame df) \<Rightarrow> columns df = cols | _ \<Rightarrow> False))"

section \<open>An example service\<close>

text \<open>
  A service for the concrete runs below: it answers a page request with a table of one
  row, the page number, and metadata reporting the given total and page size; the world
  counts the requests served.
\<close>

definition example_events :: "int \<Rightarrow> int \<Rightarrow> dict \<Rightarrow> nat \<Rightarrow> (error + dict) \<times> nat" where
  "example_events total_records page_size args w =
     (case map_of args ''page'' of
        Some (PInt p) \<Rightarrow>
          (Inr [(''events'', PFrame (Table [''id''] [(0, [Some (PInt p)])])),
                (''meta'', PDict [(''total'', PInt total_records),
                                  (''per_page'', PInt page_size), (''page'', PInt p)])],
           Suc w)
      | _ \<Rightarrow> (Inl (OtherError ''no page''), w))"

definition start :: "nat io" where
  "start = \<lparr>world = 0, calls = [], stdout = []\<rparr>"

section \<open>Outcomes of the venue searches\<close>

text \<open>
  What the venue resolver is to make of a search, in the words of its description: a
  venue counts when its \<open>num_upcoming_events\<close> is a positive integer, and each such
  venue gives one row: its name, its id and the name searched for.
\<close>

definition has_upcoming :: "string list \<Rightarrow> pyval option list \<Rightarrow> bool" where
  "has_upcoming cols cells =
     (case cell_at cols cells ''num_upcoming_events'' of Some (PInt n) \<Rightarrow> 0 < n | _ \<Rightarrow> False)"

definition venue_output :: "string \<Rightarrow> frame \<Rightarrow> (int \<times> pyval option list) list" where
  "venue_output searched df =
     map (\<lambda>(i, cells). (i, [cell_at (columns df) cells ''name'',
                             cell_at (columns df) cells ''id'', Some (PStr searched)]))
       (filter (\<lambda>(i, cells). has_upcoming (columns df) cells) (rows df))"

text \<open>
  A table of venues as a search returns it: distinct column labels, among them
  \<open>id\<close>, \<open>name\<close> and \<open>num_upcoming_events\<close>, the last an integer in every row.
\<close>

definition venue_table_ok :: "frame \<Rightarrow> bool" where
  "venue_table_ok df =
     (distinct (columns df) \<and> ''id'' \<in> set (columns df) \<and> ''name'' \<in> set (columns df) \<and>
      ''num_upcoming_events'' \<in> set (columns df) \<and>
      list_all (\<lambda>(i, cells). case cell_at (columns df) cells ''num_upcoming_events'' of
                                Some (PInt n) \<Rightarrow> True | _ \<Rightarrow> False) (rows df))"

text \<open>A search that raised ApiException, and a search that is one or returned such a table.\<close>

definition is_api_exception :: "error + pyval \<Rightarrow> bool" where
  "is_api_exception r = (case r of Inl (ApiException d) \<Rightarrow> True | _ \<Rightarrow> False)"

definition search_ok :: "error + pyval \<Rightarrow> bool" where
  "search_ok r =
     (case r of
        Inl e \<Rightarrow> is_api_exception r
      | Inr (PFrame df) \<Rightarrow> venue_table_ok df
      | Inr _ \<Rightarrow> False)"

text \<open>A search that returned at least one venue.\<close>

definition returned_rows :: "error + pyval \<Rightarrow> bool" where
  "returned_rows r = (case r of Inr (PFrame df) \<Rightarrow> rows df \<noteq> [] | _ \<Rightarrow> False)"

text \<open>
  Over the names and the outcomes of their searches, in order: the tables appended to
  \<open>all_venue_data\<close>, the rows of the searches that returned, and the names whose
  search raised ApiException.
\<close>

fun found_tables :: "string list \<Rightarrow> (error + pyval) list \<Rightarrow> frame list" where
  "found_tables (v # vs) (r # rs) =
     (case r of
        Inr (PFrame df) \<Rightarrow>
          (if rows df = [] then []
           else [Table [''venue'', ''venue_id'', ''searched_venue''] (venue_output v df)])
      | _ \<Rightarrow> []) @ found_tables vs rs"
| "found_tables vs rs = []"

fun found_rows :: "string list \<Rightarrow> (error + pyval) list \<Rightarrow> pyval option list list" where
  "found_rows (v # vs) (r # rs) =
     (case r of Inr (PFrame df) \<Rightarrow> map snd (venue_output v df) | _ \<Rightarrow> []) @ found_rows vs rs"
| "found_rows vs rs = []"

fun failed_names :: "string list \<Rightarrow> (error + pyval) list \<Rightarrow> string list" where
  "failed_names (v # vs) (r # rs) =
     (if is_api_exception r then [v] else []) @ failed_names vs rs"
| "failed_names vs rs = []"

text \<open>
  A venue search for the concrete runs: one name is known, with a venue that has upcoming
  events and one that has none; any other name raises ApiException.
\<close>

definition example_venues :: "dict \<Rightarrow> nat \<Rightarrow> (error + pyval) \<times> nat" where
  "example_venues args w =
     (if map_of args ''name'' = Some (PStr ''Madison Square Garden'') then
        (Inr (PFrame (Table [''name'', ''num_upcoming_events'', ''id'']
           [(0, [Some (PStr ''Madison Square Garden''), Some (PInt 5), Some (PInt 11)]),
            (1, [Some (PStr ''The Garden''), Some (PInt 0), Some (PInt 12)])])), Suc w)
      else (Inl (ApiException [(''status'', PInt 400)]), Suc w))"

section \<open>Properties of the projection\<close>

lemma set_first_seen: "set (first_seen seen xs) = set xs - set seen"
  by (induction seen xs rule: first_seen.induct) auto

lemma distinct_first_seen: "distinct (first_seen seen xs)"
  by (induction seen xs rule: first_seen.induct) (auto simp: set_first_seen)

lemma map_number_from:
  "map (\<lambda>(i, x). (i, g x)) (number_from k xs) = number_from k (map g xs)"
  by (induction xs arbitrary: k) auto

lemma cell_at_map: "c \<in> set cs \<Longrightarrow> cell_at cs (map f cs) c = f c"
  by (simp add: cell_at_def map_of_zip_map)

text \<open>Building the table of a list of records and slicing it to columns the records have.\<close>

lemma select_from_dict:
  assumes "list_all is_record rs"
    and "set cols \<subseteq> set (concat (map (\<lambda>r. map fst (fields_of r)) rs))"
  shows "\<exists>df. from_dict convert (PList rs) = Inr df \<and>
     df_select df cols =
       Inr (Table cols (number_from 0
         (map (\<lambda>r. map (\<lambda>c. convert (raw_column rs c) (map_of (fields_of r) c)) cols) rs)))"
proof -
  let ?all = "first_seen [] (concat (map (\<lambda>r. map fst (fields_of r)) rs))"
  let ?cell = "\<lambda>r c. convert (raw_column rs c) (map_of (fields_of r) c)"
  let ?df = "Table ?all (number_from 0 (map (\<lambda>r. map (?cell r) ?all) rs))"
  have fd: "from_dict convert (PList rs) = Inr ?df"
    using assms(1) by (simp add: from_dict_def Let_def)
  have sub: "set cols \<subseteq> set ?all"
    using assms(2) by (simp add: set_first_seen)
  have cells: "map (cell_at ?all (map (?cell r) ?all)) cols = map (?cell r) cols" for r
    using sub by (auto simp: cell_at_map)
  have "df_select ?df cols = Inr (Table cols (number_from 0 (map (\<lambda>r. map (?cell r) cols) rs)))"
    using sub
    by (simp add: df_select_def distinct_first_seen list_all_iff subset_iff
        map_number_from [where g = "\<lambda>cells. map (cell_at ?all cells) cols"] comp_def cells)
  with fd show ?thesis by blast
qed

text \<open>The lookup of the columns succeeds for each kind and gives its configured list.\<close>

lemma getattr_structure_kind:
  "getattr_structure sg (kind_name k) = Inr (configured_columns sg k)"
  by (cases k) (simp_all add: getattr_structure_def kind_name_def configured_columns_def)

text \<open>
  C1. For each of the four resource kinds \<open>k\<close>: when the transport's response maps the
  key of \<open>k\<close> to a list of records that together have every column configured for
  \<open>k\<close>, \<open>_send_request\<close> returns the response with that key mapped to a table whose
  columns are exactly the list configured for \<open>k\<close>, in the configured order, whatever
  other fields the records have. The table has one row per record, numbered from 0, and
  the cell of a row under a configured column is what pandas stores for the record's
  entry in that column; nothing else of the record is in the row.
\<close>

theorem send_request_projects_columns:
  assumes "super_send (kind_name k) req_args req_id w = (Inr response, w')"
    and "map_of response (kind_name k) = Some (PList rs)"
    and "list_all is_record rs"
    and "set (configured_columns sg k) \<subseteq> set (concat (map (\<lambda>r. map fst (fields_of r)) rs))"
  shows "send_request super_send convert sg (kind_name k) req_args req_id w =
     (Inr (AList.update (kind_name k)
        (PFrame (Table (configured_columns sg k)
           (number_from 0
              (map (\<lambda>r. map (\<lambda>c. convert (raw_column rs c) (map_of (fields_of r) c))
                           (configured_columns sg k)) rs))))
        response), w')"
proof -
  have key: "kind_name k \<in> set (map fst response)"
    using assms(2) by (metis map_of_eq_None_iff option.distinct(1) set_map)
  obtain df where "from_dict convert (PList rs) = Inr df"
    and "df_select df (configured_columns sg k) =
       Inr (Table (configured_columns sg k) (number_from 0
         (map (\<lambda>r. map (\<lambda>c. convert (raw_column rs c) (map_of (fields_of r) c))
                      (configured_columns sg k)) rs)))"
    using select_from_dict [OF assms(3,4)] by blast
  then show ?thesis
    using assms(1,2) key by (simp add: send_request_def dict_get_def getattr_structure_kind)
qed

theorem send_request_projects_columns_witness:
  "let response =
         [(''events'', PList [PDict [(''id'', PInt 1), (''type'', PStr ''concert''),
                                     (''score'', PNone)]]),
          (''performers'', PList [PDict [(''name'', PStr ''P''), (''id'', PInt 2),
                                         (''slug'', PStr ''p'')]]),
          (''stats'', PList [PDict [(''listing_count'', PInt 3), (''lowest_price'', PInt 9)]]),
          (''venues'', PList [PDict [(''city'', PStr ''NY''), (''id'', PInt 4),
                                     (''name'', PStr ''V'')],
                              PDict [(''name'', PStr ''W''), (''id'', PInt 5)]])];
       sg = \<lparr>events = [''type'', ''id''], performers = [''name'', ''id''],
             stats = [''listing_count''], venues = [''name'', ''id'']\<rparr>;
       run = (\<lambda>req_type. send_request (\<lambda>k a i w. (Inr response, w)) keep_values sg
                req_type () () (0::nat))
   in run ''events'' =
        (Inr (AList.update ''events''
           (PFrame (Table [''type'', ''id''] [(0, [Some (PStr ''concert''), Some (PInt 1)])]))
           response), 0)
    \<and> run ''performers'' =
        (Inr (AList.update ''performers''
           (PFrame (Table [''name'', ''id''] [(0, [Some (PStr ''P''), Some (PInt 2)])]))
           response), 0)
    \<and> run ''stats'' =
        (Inr (AList.update ''stats''
           (PFrame (Table [''listing_count''] [(0, [Some (PInt 3)])]))
           response), 0)
    \<and> run ''venues'' =
        (Inr (AList.update ''venues''
           (PFrame (Table [''name'', ''id'']
              [(0, [Some (PStr ''V''), Some (PInt 4)]), (1, [Some (PStr ''W''), Some (PInt 5)])]))
           response), 0)"
proof -
  let ?response =
    "[(''events'', PList [PDict [(''id'', PInt 1), (''type'', PStr ''concert''),
                                 (''score'', PNone)]]),
      (''performers'', PList [PDict [(''name'', PStr ''P''), (''id'', PInt 2),
                                     (''slug'', PStr ''p'')]]),
      (''stats'', PList [PDict [(''listing_count'', PInt 3), (''lowest_price'', PInt 9)]]),
      (''venues'', PList [PDict [(''city'', PStr ''NY''), (''id'', PInt 4),
                                 (''name'', PStr ''V'')],
                          PDict [(''name'', PStr ''W''), (''id'', PInt 5)]])]"
  let ?sg = "\<lparr>events = [''type'', ''id''], performers = [''name'', ''id''],
              stats = [''listing_count''], venues = [''name'', ''id'']\<rparr>"
  let ?send = "\<lambda>(k::string) (a::unit) (i::unit) (w::nat). (Inr ?response :: error + dict, w)"
  have run: "send_request ?send keep_values ?sg (kind_name k) () () 0 =
     (Inr (AList.update (kind_name k)
        (PFrame (Table (configured_columns ?sg k)
           (number_from 0
              (map (\<lambda>r. map (\<lambda>c. keep_values (raw_column rs c) (map_of (fields_of r) c))
                           (configured_columns ?sg k)) rs))))
        ?response), 0)"
    if "map_of ?response (kind_name k) = Some (PList rs)"
      and "list_all is_record rs"
      and "set (configured_columns ?sg k) \<subseteq> set (concat (map (\<lambda>r. map fst (fields_of r)) rs))"
    for k rs
    using that by (intro send_request_projects_columns) simp_all
  have e: "send_request ?send keep_values ?sg ''events'' () () 0 =
        (Inr (AList.update ''events''
           (PFrame (Table [''type'', ''id''] [(0, [Some (PStr ''concert''), Some (PInt 1)])]))
           ?response), 0)"
    using run [of Events "[PDict [(''id'', PInt 1), (''type'', PStr ''concert''),
                                  (''score'', PNone)]]"]
    by (simp add: kind_name_def configured_columns_def is_record_def fields_of_def
        keep_values_def)
  have p: "send_request ?send keep_values ?sg ''performers'' () () 0 =
        (Inr (AList.update ''performers''
           (PFrame (Table [''name'', ''id''] [(0, [Some (PStr ''P''), Some (PInt 2)])]))
           ?response), 0)"
    using run [of Performers "[PDict [(''name'', PStr ''P''), (''id'', PInt 2),
                                      (''slug'', PStr ''p'')]]"]
    by (simp add: kind_name_def configured_columns_def is_record_def fields_of_def
        keep_values_def)
  have t: "send_request ?send keep_values ?sg ''stats'' () () 0 =
        (Inr (AList.update ''stats''
           (PFrame (Table [''listing_count''] [(0, [Some (PInt 3)])]))
           ?response), 0)"
    using run [of Stats "[PDict [(''listing_count'', PInt 3), (''lowest_price'', PInt 9)]]"]
    by (simp add: kind_name_def configured_columns_def is_record_def fields_of_def
        keep_values_def)
  have v: "send_request ?send keep_values ?sg ''venues'' () () 0 =
        (Inr (AList.update ''venues''
           (PFrame (Table [''name'', ''id'']
              [(0, [Some (PStr ''V''), Some (PInt 4)]), (1, [Some (PStr ''W''), Some (PInt 5)])]))
           ?response), 0)"
    using run [of Venues "[PDict [(''city'', PStr ''NY''), (''id'', PInt 4),
                                  (''name'', PStr ''V'')],
                           PDict [(''name'', PStr ''W''), (''id'', PInt 5)]]"]
    by (simp add: kind_name_def configured_columns_def is_record_def fields_of_def
        keep_values_def)
  show ?thesis
    unfolding Let_def using e p t v by blast
qed

text \<open>
  C3. When the requested kind is not a key of the transport's response,
  \<open>_send_request\<close> raises ApiException, and the exception carries the whole response.
\<close>

theorem send_request_missing_key:
  assumes "super_send req_type req_args req_id w = (Inr response, w')"
    and "req_type \<notin> set (map fst response)"
  shows "send_request super_send convert sg req_type req_args req_id w =
     (Inl (ApiException response), w')"
  using assms by (simp add: send_request_def)

theorem send_request_missing_key_witness:
  "''events'' \<notin> set (map fst [(''error'', PStr ''bad request'')]) \<and>
   send_request (\<lambda>k a i w. (Inr [(''error'', PStr ''bad request'')], w)) keep_values
     default_structure ''events'' () () (0::nat) =
   (Inl (ApiException [(''error'', PStr ''bad request'')]), 0)"
  using send_request_missing_key
    [of "\<lambda>k a i w. (Inr [(''error'', PStr ''bad request'')], w)" "''events''" "()" "()"
        "0::nat" "[(''error'', PStr ''bad request'')]" 0 keep_values default_structure]
  by simp

text \<open>
  C4. A kind that is a key of the response and no field of the schema: the lookup of
  the columns raises AttributeError, which the \<open>except KeyError\<close> clause does not
  catch, so no ApiException is raised. Here the kind is \<open>taxonomies\<close>.
\<close>

theorem send_request_unrecognized_kind:
  "send_request (\<lambda>k a i w. (Inr [(''taxonomies'', PList []), (''meta'', PDict [])], w))
     keep_values default_structure ''taxonomies'' () () (0::nat) = (Inl AttributeError, 0)"
  by (simp add: send_request_def getattr_structure_def other_attribute_def)

section \<open>Rounding of the true division\<close>

lemma pow2_powi: "pow2 k = 2 powi k"
  by (simp add: pow2_def power_int_def inverse_eq_divide power_one_over)

lemma pow2_pos: "0 < pow2 k"
  by (simp add: pow2_powi)

lemma pow2_add: "pow2 (i + j) = pow2 i * pow2 j"
  by (simp add: pow2_powi power_int_add)

lemma pow2_mono: "i \<le> j \<Longrightarrow> pow2 i \<le> pow2 j"
  by (simp add: pow2_powi power_int_increasing)

lemma pow2_nat: "0 \<le> k \<Longrightarrow> pow2 k = of_int (2 ^ nat k)"
  by (simp add: pow2_def)

lemma round_half_even_near: "\<bar>of_int (round_half_even r) - r\<bar> \<le> 1 / 2"
proof -
  have "of_int \<lfloor>r\<rfloor> \<le> r" "r < of_int \<lfloor>r\<rfloor> + 1"
    by linarith+
  then show ?thesis
    by (auto simp: round_half_even_def Let_def)
qed

lemma floor_log2_quot_lower:
  assumes "0 < a" "0 < b"
  shows "pow2 (floor_log2_quot a b) * of_int b \<le> of_int a"
proof (cases "pow2 (bitlen a - bitlen b) * of_int b \<le> of_int a")
  case True
  then show ?thesis by (simp add: floor_log2_quot_def Let_def)
next
  case False
  have ba: "(2::int) ^ nat (bitlen a - 1) \<le> a" and bb: "b < 2 ^ nat (bitlen b)"
    using bitlen_bounds [OF assms(1)] bitlen_bounds [OF assms(2)] by simp_all
  have ba1: "1 \<le> bitlen a" using assms(1) by (simp add: bitlen_alt_def)
  have "(of_int b :: rat) \<le> of_int (2 ^ nat (bitlen b))"
    using bb by (metis of_int_le_iff less_imp_le)
  also have "\<dots> = pow2 (bitlen b)"
    by (simp add: pow2_nat bitlen_nonneg)
  finally have "pow2 (bitlen a - bitlen b - 1) * of_int b
      \<le> pow2 (bitlen a - bitlen b - 1) * pow2 (bitlen b)"
    using pow2_pos by (simp add: mult_left_mono less_imp_le)
  also have "\<dots> = pow2 (bitlen a - 1)"
    by (simp add: pow2_add [symmetric])
  also have "\<dots> = of_int (2 ^ nat (bitlen a - 1))"
    using ba1 by (simp add: pow2_nat)
  also have "\<dots> \<le> of_int a"
    using ba by (metis of_int_le_iff)
  finally show ?thesis
    using False by (simp add: floor_log2_quot_def Let_def)
qed

lemma floor_log2_quot_upper:
  assumes "0 < a" "a < 2 ^ 53" "0 < b"
  shows "floor_log2_quot a b \<le> 52"
proof -
  have "bitlen a \<le> 53"
    using assms(1,2) by (simp add: bitlen_le_iff_power)
  moreover have "1 \<le> bitlen b" using assms(3) by (simp add: bitlen_alt_def)
  ultimately show ?thesis
    by (simp add: floor_log2_quot_def Let_def)
qed


lemma int_truediv_ceiling:
  assumes a: "0 < a" "a < 2 ^ 53" and b: "0 < b" "b < 2 ^ 53"
  shows "\<exists>y. int_truediv a b = Inr y \<and> \<lceil>y\<rceil> = \<lceil>(of_int a / of_int b :: rat)\<rceil>"
proof -
  define x :: rat where "x = of_int a / of_int b"
  define e where "e = max (floor_log2_quot a b) (- 1022)"
  define q where "q = pow2 (e - 52)"
  define j where "j = nat (52 - e)"
  define m where "m = round_half_even (x / q)"
  define y where "y = of_int m * q"
  define n where "n = \<lceil>x\<rceil>"
  have bpos: "(0::rat) < of_int b" using b by simp
  have xpos: "0 < x" using a b by (simp add: x_def)
  have qpos: "0 < q" by (simp add: q_def pow2_pos)
  have e52: "e \<le> 52"
    using floor_log2_quot_upper [OF a b(1)] by (simp add: e_def)
  have qinv: "q * 2 ^ j = 1"
  proof -
    have "pow2 (e - 52) * pow2 (52 - e) = 1"
      by (simp add: pow2_add [symmetric] pow2_def)
    moreover have "pow2 (52 - e) = 2 ^ j"
      using e52 by (simp add: pow2_def j_def)
    ultimately show ?thesis by (simp add: q_def)
  qed
  have divq: "of_int k / q = of_int (k * 2 ^ j)" for k
  proof -
    have "of_int k / q = of_int k * (q * 2 ^ j) / q" by (simp add: qinv)
    also have "\<dots> = of_int k * 2 ^ j" using qpos by simp
    finally show ?thesis by simp
  qed
  have bq: "of_int b * q < 2"
  proof (cases "floor_log2_quot a b \<le> - 1022")
    case True
    then have "e = - 1022" by (simp add: e_def)
    then have "q = pow2 (- 1074)" by (simp add: q_def)
    also have "\<dots> \<le> pow2 (- 53)" by (rule pow2_mono) simp
    finally have "of_int b * q \<le> of_int b * pow2 (- 53)"
      using bpos by (simp add: mult_left_mono less_imp_le)
    also have "\<dots> < 2 ^ 53 * pow2 (- 53)"
    proof -
      have "(of_int b :: rat) < of_int (2 ^ 53)" using b(2) by (metis of_int_less_iff)
      then show ?thesis using pow2_pos [of "- 53"] by simp
    qed
    also have "\<dots> = 1" by (simp add: pow2_def)
    finally show ?thesis by simp
  next
    case False
    then have "e = floor_log2_quot a b" by (simp add: e_def)
    then have "q = pow2 (floor_log2_quot a b) * pow2 (- 52)"
      by (simp add: q_def pow2_add [symmetric])
    then have "of_int b * q = (pow2 (floor_log2_quot a b) * of_int b) * pow2 (- 52)"
      by simp
    also have "\<dots> \<le> of_int a * pow2 (- 52)"
      using floor_log2_quot_lower [OF a(1) b(1)] pow2_pos [of "- 52"]
      by (simp add: mult_right_mono less_imp_le)
    also have "\<dots> < 2 ^ 53 * pow2 (- 52)"
    proof -
      have "(of_int a :: rat) < of_int (2 ^ 53)" using a(2) by (metis of_int_less_iff)
      then show ?thesis using pow2_pos [of "- 52"] by simp
    qed
    also have "\<dots> = 2" by (simp add: pow2_def)
    finally show ?thesis .
  qed
  have near: "\<bar>of_int m - x / q\<bar> \<le> 1 / 2"
    unfolding m_def by (rule round_half_even_near)
  have n_up: "x \<le> of_int n" and n_lo: "of_int n - 1 < x"
    unfolding n_def by linarith+
  have upper: "y \<le> of_int n"
  proof -
    have "x / q \<le> of_int n / q"
      using n_up qpos by (simp add: divide_right_mono less_imp_le)
    then have "x / q \<le> of_int (n * 2 ^ j)" by (simp only: divq)
    with near have "(of_int m :: rat) \<le> of_int (n * 2 ^ j) + 1 / 2" by linarith
    then have "m \<le> n * 2 ^ j" by linarith
    then have "(of_int m :: rat) \<le> of_int (n * 2 ^ j)" by (metis of_int_le_iff)
    then have "of_int m * q \<le> of_int (n * 2 ^ j) * q"
      using qpos by (simp add: mult_right_mono less_imp_le)
    also have "\<dots> = of_int n * (q * 2 ^ j)" by simp
    finally show ?thesis by (simp add: y_def qinv)
  qed
  have lower: "of_int n - 1 < y"
  proof -
    have "(of_int n - 1) * of_int b < (of_int a :: rat)"
      using n_lo bpos unfolding x_def by (simp only: pos_less_divide_eq)
    then have "0 < of_int a - of_int (n - 1) * (of_int b :: rat)"
      by simp
    then have "(0::rat) < of_int (a - (n - 1) * b)" by simp
    then have "0 < a - (n - 1) * b" by (metis of_int_0_less_iff)
    then have "1 \<le> a - (n - 1) * b" by simp
    then have "(1::rat) \<le> of_int (a - (n - 1) * b)" by (metis of_int_1_le_iff)
    then have "1 / of_int b \<le> x - of_int (n - 1)"
      using bpos by (simp add: x_def field_simps)
    moreover have "1 / 2 < 1 / (of_int b * q) "
      using bq bpos qpos by (simp add: field_simps)
    ultimately have "1 / 2 < (x - of_int (n - 1)) / q"
    proof -
      assume h: "1 / of_int b \<le> x - of_int (n - 1)" "1 / 2 < 1 / (of_int b * q)"
      have "1 / (of_int b * q) = (1 / of_int b) / q" by simp
      also have "\<dots> \<le> (x - of_int (n - 1)) / q"
        by (rule divide_right_mono [OF h(1)]) (rule less_imp_le [OF qpos])
      finally show ?thesis using h(2) by linarith
    qed
    then have "1 / 2 < x / q - of_int (n - 1) / q"
      by (simp add: diff_divide_distrib)
    then have "of_int ((n - 1) * 2 ^ j) + 1 / 2 < x / q" by (simp only: divq)
    with near have "(of_int ((n - 1) * 2 ^ j) :: rat) < of_int m" by linarith
    then have "(n - 1) * 2 ^ j < m" by (metis of_int_less_iff)
    then have "(n - 1) * 2 ^ j + 1 \<le> m" by simp
    then have "(of_int ((n - 1) * 2 ^ j + 1) :: rat) \<le> of_int m" by (metis of_int_le_iff)
    then have "of_int ((n - 1) * 2 ^ j + 1) * q \<le> of_int m * q"
      using qpos by (simp add: mult_right_mono less_imp_le)
    moreover have "of_int ((n - 1) * 2 ^ j + 1) * q = of_int (n - 1) * (q * 2 ^ j) + q"
      by (simp add: algebra_simps)
    ultimately have "of_int (n - 1) + q \<le> y" by (simp add: y_def qinv)
    with qpos show ?thesis by simp
  qed
  have ceil: "\<lceil>y\<rceil> = n"
    using upper lower by (simp add: ceiling_unique)
  have "x \<le> of_int a"
  proof -
    have "(1::rat) \<le> of_int b" using b(1) by simp
    then have "of_int a / of_int b \<le> (of_int a :: rat) / 1"
      using a(1) by (intro divide_left_mono) simp_all
    then show ?thesis by (simp add: x_def)
  qed
  then have "n \<le> a" by (simp add: n_def ceiling_le_iff)
  then have "(of_int n :: rat) \<le> of_int a" by (metis of_int_le_iff)
  moreover have "(of_int a :: rat) < of_int (2 ^ 53)" using a(2) by (metis of_int_less_iff)
  moreover have "(2::rat) ^ 53 \<le> pow2 1024"
    by (simp add: pow2_def power_increasing)
  ultimately have nover: "\<not> pow2 1024 \<le> y" using upper by simp
  have "int_truediv a b = Inr y"
    using a(1) b(1) nover
    by (simp add: int_truediv_def Let_def y_def m_def q_def e_def x_def)
  with ceil show ?thesis by (simp add: n_def x_def)
qed

text \<open>Two quotients that round down to an integer.\<close>

lemma bitlen_numeral_simps:
  "bitlen (numeral (Num.Bit0 n)) = bitlen (numeral n) + 1"
  "bitlen (numeral (Num.Bit1 n)) = bitlen (numeral n) + 1"
  "bitlen 1 = 1"
  by (subst compute_bitlen, simp)+

lemma truediv_example_1: "int_truediv 9007199254740993 1 = Inr 9007199254740992"
proof -
  have e: "floor_log2_quot 9007199254740993 1 = 53"
    by (simp add: floor_log2_quot_def bitlen_numeral_simps pow2_def)
  have f: "\<lfloor>(9007199254740993 / 2 :: rat)\<rfloor> = 4503599627370496"
    by (rule floor_unique) simp_all
  have r: "round_half_even (9007199254740993 / 2) = 4503599627370496"
    by (simp add: round_half_even_def f Let_def)
  show ?thesis
    by (simp add: int_truediv_def e pow2_def r Let_def)
qed

lemma truediv_example_2:
  "int_truediv 9007199254740993 4503599627370496 = Inr 2"
proof -
  have e: "floor_log2_quot 9007199254740993 4503599627370496 = 1"
    by (simp add: floor_log2_quot_def bitlen_numeral_simps pow2_def)
  have q: "(9007199254740993 / 4503599627370496 / pow2 (- 51) :: rat) = 9007199254740993 / 2"
    by (simp add: pow2_def)
  have f: "\<lfloor>(9007199254740993 / 2 :: rat)\<rfloor> = 4503599627370496"
    by (rule floor_unique) simp_all
  have r: "round_half_even (9007199254740993 / 2) = 4503599627370496"
    by (simp add: round_half_even_def f Let_def)
  have y: "(4503599627370496 * pow2 (- 51) :: rat) = 2"
    by (simp add: pow2_def)
  have big: "\<not> pow2 1024 \<le> 2"
    by (simp add: pow2_def)
  have "int_truediv 9007199254740993 4503599627370496 =
      (let y = of_int (round_half_even (9007199254740993 / 4503599627370496 / pow2 (- 51))) * pow2 (- 51)
       in if pow2 1024 \<le> y then Inl OverflowError else Inr y)"
    by (simp add: int_truediv_def Let_def e)
  also have "\<dots> = Inr 2"
    unfolding q r Let_def using y big by simp
  finally show ?thesis .
qed

section \<open>The loop of the pager\<close>

lemma page_loop_success:
  assumes "list_all page_ok (fst (run_calls ge (map req [p..n]) (world s)))"
  shows "page_loop (\<lambda>q. invoke ''get_events'' ge (req q)) n p resp tabs s =
     (Inr (last (resp # map response_of (fst (run_calls ge (map req [p..n]) (world s)))),
           tabs @ map (\<lambda>r. events_of (response_of r)) (fst (run_calls ge (map req [p..n]) (world s)))),
      s\<lparr>world := snd (run_calls ge (map req [p..n]) (world s)),
        calls := calls s @ map (\<lambda>q. (''get_events'', req q)) [p..n]\<rparr>)"
  using assms
proof (induction "nat (n + 1 - p)" arbitrary: p resp tabs s)
  case 0
  then have "\<not> p \<le> n" by simp
  then show ?case
    by (subst page_loop.simps) simp
next
  case (Suc k)
  then have le: "p \<le> n" by simp
  have up: "[p..n] = p # [p + 1..n]"
    using le by (simp add: upto_rec1)
  obtain r w' where f: "ge (req p) (world s) = (r, w')"
    by (cases "ge (req p) (world s)")
  obtain rs w'' where rest: "run_calls ge (map req [p + 1..n]) w' = (rs, w'')"
    by (cases "run_calls ge (map req [p + 1..n]) w'")
  from Suc.prems have ok: "page_ok r" and oks: "list_all page_ok rs"
    by (simp_all add: up f rest)
  from ok obtain resp' where r: "r = Inr resp'" and key: "''events'' \<in> set (map fst resp')"
    by (auto simp: page_ok_def split: sum.splits)
  from key obtain ev where ev: "map_of resp' ''events'' = Some ev"
    by (metis map_of_eq_None_iff not_None_eq set_map)
  let ?s' = "s\<lparr>world := w', calls := calls s @ [(''get_events'', req p)]\<rparr>"
  have k: "k = nat (n + 1 - (p + 1))" using Suc.hyps(2) by simp
  have ih: "page_loop (\<lambda>q. invoke ''get_events'' ge (req q)) n (p + 1) resp' (tabs @ [ev]) ?s' =
     (Inr (last (resp' # map response_of rs),
           (tabs @ [ev]) @ map (\<lambda>r. events_of (response_of r)) rs),
      ?s'\<lparr>world := w'', calls := calls ?s' @ map (\<lambda>q. (''get_events'', req q)) [p + 1..n]\<rparr>)"
    using Suc.hyps(1) [OF k, of ?s' resp' "tabs @ [ev]"] oks rest by simp
  have step: "page_loop (\<lambda>q. invoke ''get_events'' ge (req q)) n p resp tabs s =
      page_loop (\<lambda>q. invoke ''get_events'' ge (req q)) n (p + 1) resp' (tabs @ [ev]) ?s'"
    by (subst page_loop.simps) (simp add: le invoke_def f r dict_get_def ev)
  show ?case
    unfolding step ih
    by (simp add: up f rest r response_of_def events_of_def ev)
qed

lemma get_events_by_pages:
  assumes first: "ge (page_request (lookup_field_of req_type) (join_ids ids) pp0 1 et) (world s)
      = (Inr resp1, w1)"
    and info: "page_info resp1 = Inr (pp, n)"
    and ev1: "map_of resp1 ''events'' = Some ev1"
    and pages: "list_all page_ok
      (fst (run_calls ge (map (\<lambda>q. page_request (lookup_field_of req_type) (join_ids ids) pp q et) [2..n]) w1))"
  shows "get_events_by ge req_type ids pp0 et s =
     (let req = (\<lambda>per_page q. page_request (lookup_field_of req_type) (join_ids ids) per_page q et);
          run = run_calls ge (map (req pp) [2..n]) w1;
          s' = s\<lparr>world := snd run,
                 calls := calls s @ (''get_events'', req pp0 1) #
                            map (\<lambda>q. (''get_events'', req pp q)) [2..n]\<rparr>
      in case pd_concat (ev1 # map (\<lambda>r. events_of (response_of r)) (fst run)) of
           Inl e \<Rightarrow> (Inl e, s')
         | Inr df \<Rightarrow>
             (Inr (AList.update ''events'' (PFrame df)
                (last (resp1 # map response_of (fst run)))), s'))"
proof -
  let ?req = "\<lambda>per_page q. page_request (lookup_field_of req_type) (join_ids ids) per_page q et"
  let ?s1 = "s\<lparr>world := w1, calls := calls s @ [(''get_events'', ?req pp0 1)]\<rparr>"
  have h1: "helper_get_events_by ge (lookup_field_of req_type) (join_ids ids) pp0 1 et s
      = (Inr resp1, ?s1)"
    by (simp add: helper_get_events_by_def invoke_def first)
  have loop: "page_loop (\<lambda>q. helper_get_events_by ge (lookup_field_of req_type) (join_ids ids) pp q et)
        n 2 resp1 [ev1] ?s1 =
     (Inr (last (resp1 # map response_of (fst (run_calls ge (map (?req pp) [2..n]) w1))),
           [ev1] @ map (\<lambda>r. events_of (response_of r)) (fst (run_calls ge (map (?req pp) [2..n]) w1))),
      ?s1\<lparr>world := snd (run_calls ge (map (?req pp) [2..n]) w1),
        calls := calls ?s1 @ map (\<lambda>q. (''get_events'', ?req pp q)) [2..n]\<rparr>)"
    unfolding helper_get_events_by_def
    using page_loop_success [where req = "?req pp" and ge = ge and p = 2 and n = n
        and s = ?s1 and resp = resp1 and tabs = "[ev1]"] pages
    by simp
  show ?thesis
    by (simp add: get_events_by_def Let_def h1 info dict_get_def ev1 loop split: sum.splits)
qed

lemma page_info_meta:
  assumes "map_of resp ''meta'' = Some (PDict meta)"
    and "map_of meta ''total'' = Some total_records"
    and "map_of meta ''per_page'' = Some per_page"
  shows "page_info resp =
     (case ceil_truediv total_records per_page of
        Inl e \<Rightarrow> Inl e
      | Inr total_pages \<Rightarrow> Inr (per_page, total_pages))"
  using assms by (simp add: page_info_def dict_get_def py_getitem_def)

lemma ceil_truediv_exact:
  assumes "0 \<le> a" "a < 2 ^ 53" "0 < b" "b < 2 ^ 53"
  shows "ceil_truediv (PInt a) (PInt b) = Inr \<lceil>(of_int a / of_int b :: rat)\<rceil>"
proof (cases "a = 0")
  case True
  then show ?thesis
    using assms(3) by (simp add: ceil_truediv_def as_int_def is_frame_def is_float_def int_truediv_def)
next
  case False
  then have "0 < a" using assms(1) by simp
  from int_truediv_ceiling [OF this assms(2,3,4)]
  show ?thesis by (auto simp: ceil_truediv_def as_int_def is_frame_def is_float_def)
qed

lemma map_of_page_request_per_page:
  "map_of (page_request lf ids pp q et) ''per_page'' = Some pp"
  by (simp add: page_request_def update_conv')

lemma map_of_page_request_page:
  "map_of (page_request lf ids pp q et) ''page'' = Some (PInt q)"
  by (simp add: page_request_def update_conv')

lemma pd_concat_same_columns:
  assumes "vs \<noteq> []" and "list_all (\<lambda>v. is_frame v \<and> columns (frame_of v) = cols) vs"
  shows "pd_concat vs = Inr (Table cols (concat (map (\<lambda>v. rows (frame_of v)) vs)))"
proof -
  have nn: "filter (\<lambda>v. v \<noteq> PNone) vs = vs"
    using assms(2) by (auto simp: list_all_iff is_frame_def filter_id_conv)
  have fr: "list_all is_frame vs"
    using assms(2) by (simp add: list_all_iff)
  obtain v rest where vs: "vs = v # rest"
    using assms(1) by (cases vs) auto
  have cols: "list_all (\<lambda>d. columns d = cols) (map frame_of vs)"
    using assms(2) by (simp add: list_all_iff)
  then have "columns (frame_of v) = cols" by (simp add: vs)
  with cols have "concat_frames (map frame_of vs) False =
      Inr (Table cols (concat (map rows (map frame_of vs))))"
    by (simp add: concat_frames_def vs)
  then show ?thesis
    using assms(1) nn fr by (simp add: pd_concat_def comp_def)
qed

lemma upto_from_one: "[1..max 1 n] = 1 # [2..n]"
  by (cases "1 \<le> n") (simp_all add: upto_rec1 max_def)

lemma page_table_ok_page_ok: "page_table_ok cols r \<Longrightarrow> page_ok r"
  by (auto simp: page_table_ok_def page_ok_def split: sum.splits option.splits pyval.splits
      dest: map_of_SomeD intro: rev_image_eqI)

lemma page_table_ok_frame:
  "page_table_ok cols r \<Longrightarrow>
     is_frame (events_of (response_of r)) \<and> columns (frame_of (events_of (response_of r))) = cols"
  by (auto simp: page_table_ok_def events_of_def response_of_def is_frame_def frame_of_def
      split: sum.splits option.splits pyval.splits)

section \<open>The number of pages\<close>

text \<open>
  C2, as amended. When the metadata of the first response gives integers \<open>total\<close> and
  \<open>per_page\<close> with \<open>0 \<le> total < 2^53\<close> and \<open>0 < per_page < 2^53\<close>, the number of
  pages the pager computes is the ceiling of \<open>total / per_page\<close>, with the \<open>per_page\<close>
  of the metadata: the page size the caller asked for is no input of the computation.
\<close>

theorem page_count_from_server_metadata:
  assumes "map_of resp ''meta'' = Some (PDict meta)"
    and "map_of meta ''total'' = Some (PInt total_records)"
    and "map_of meta ''per_page'' = Some (PInt per_page)"
    and "0 \<le> total_records" and "total_records < 2 ^ 53"
    and "0 < per_page" and "per_page < 2 ^ 53"
  shows "page_info resp =
     Inr (PInt per_page, \<lceil>(of_int total_records / of_int per_page :: rat)\<rceil>)"
  using page_info_meta [OF assms(1,2,3)] ceil_truediv_exact [OF assms(4,5,6,7)]
  by simp

theorem page_count_from_server_metadata_witness:
  "page_info [(''events'', PList []),
              (''meta'', PDict [(''total'', PInt 250), (''per_page'', PInt 100), (''page'', PInt 1)])]
   = Inr (PInt 100, 3)"
  using page_count_from_server_metadata
    [of "[(''events'', PList []),
          (''meta'', PDict [(''total'', PInt 250), (''per_page'', PInt 100), (''page'', PInt 1)])]"
        "[(''total'', PInt 250), (''per_page'', PInt 100), (''page'', PInt 1)]" 250 100]
    ceiling_unique [of 3 "5 / 2 :: rat"]
  by simp

text \<open>
  Without the bound on the total the statement fails: the division is a floating-point
  division, and for a total of \<open>2^53 + 1\<close> with a page size of 1 the quotient rounds
  to \<open>2^53\<close>, one page short of the ceiling.
\<close>

theorem page_count_counterexample:
  "page_info [(''meta'', PDict [(''total'', PInt 9007199254740993), (''per_page'', PInt 1)])]
     = Inr (PInt 1, 9007199254740992)
   \<and> \<lceil>(of_int 9007199254740993 / of_int 1 :: rat)\<rceil> \<noteq> 9007199254740992"
  by (simp add: page_info_def dict_get_def py_getitem_def ceil_truediv_def as_int_def
      is_frame_def is_float_def truediv_example_1)

section \<open>Fetching all pages\<close>

text \<open>
  C5, as amended. Let the first response report integers \<open>total\<close> and \<open>per_page\<close>
  with \<open>0 \<le> total < 2^53\<close> and \<open>0 < per_page < 2^53\<close>, let \<open>n\<close> be the ceiling
  of \<open>total / per_page\<close>, and let every fetch of the pages 2 to \<open>n\<close> return a
  response whose \<open>events\<close> entry is a table with the columns of the first page. Then
  \<open>get_events_by\<close> returns; it calls \<open>get_events\<close> exactly \<open>max 1 n\<close> times, for
  the pages 1, 2, ..., in this order; and the \<open>events\<close> table of the result is the rows
  of the page tables, page after page, each page in its own row order.
\<close>

theorem fetch_all_pages:
  assumes first: "ge (page_request (lookup_field_of req_type) (join_ids ids) pp0 1 et) (world s)
      = (Inr resp1, w1)"
    and meta: "map_of resp1 ''meta'' = Some (PDict meta)"
      "map_of meta ''total'' = Some (PInt total_records)"
      "map_of meta ''per_page'' = Some (PInt per_page)"
    and range: "0 \<le> total_records" "total_records < 2 ^ 53" "0 < per_page" "per_page < 2 ^ 53"
    and n: "n = \<lceil>(of_int total_records / of_int per_page :: rat)\<rceil>"
    and ev1: "map_of resp1 ''events'' = Some (PFrame df1)"
    and run: "run = run_calls ge
      (map (\<lambda>q. page_request (lookup_field_of req_type) (join_ids ids) (PInt per_page) q et) [2..n]) w1"
    and pages: "list_all (page_table_ok (columns df1)) (fst run)"
  shows "\<exists>resp s'. get_events_by ge req_type ids pp0 et s = (Inr resp, s')
     \<and> calls s' = calls s @
          map (\<lambda>q. (''get_events'',
                 page_request (lookup_field_of req_type) (join_ids ids)
                   (if q = 1 then pp0 else PInt per_page) q et))
            [1..max 1 n]
     \<and> length (calls s') = length (calls s) + nat (max 1 n)
     \<and> map_of resp ''events'' =
          Some (PFrame (Table (columns df1)
            (rows df1 @ concat (map (\<lambda>r. rows (frame_of (events_of (response_of r)))) (fst run)))))"
proof -
  let ?req = "\<lambda>per_page q. page_request (lookup_field_of req_type) (join_ids ids) per_page q et"
  have info: "page_info resp1 = Inr (PInt per_page, n)"
    using page_info_meta [OF meta] ceil_truediv_exact [OF range] by (simp add: n)
  have oks: "list_all page_ok (fst (run_calls ge (map (?req (PInt per_page)) [2..n]) w1))"
    using pages page_table_ok_page_ok unfolding run by (auto simp: list_all_iff)
  have frames: "list_all (\<lambda>v. is_frame v \<and> columns (frame_of v) = columns df1)
      (PFrame df1 # map (\<lambda>r. events_of (response_of r)) (fst run))"
    using pages page_table_ok_frame
    by (auto simp: list_all_iff is_frame_def frame_of_def)
  have cat: "pd_concat (PFrame df1 # map (\<lambda>r. events_of (response_of r)) (fst run)) =
      Inr (Table (columns df1)
        (rows df1 @ concat (map (\<lambda>r. rows (frame_of (events_of (response_of r)))) (fst run))))"
    using pd_concat_same_columns [OF _ frames] by (simp add: frame_of_def comp_def)
  have two: "map (\<lambda>q. (''get_events'', ?req (if q = 1 then pp0 else PInt per_page) q)) [2..n]
      = map (\<lambda>q. (''get_events'', ?req (PInt per_page) q)) [2..n]"
    by (rule map_cong) auto
  have callseq: "map (\<lambda>q. (''get_events'', ?req (if q = 1 then pp0 else PInt per_page) q)) [1..max 1 n]
      = (''get_events'', ?req pp0 1) # map (\<lambda>q. (''get_events'', ?req (PInt per_page) q)) [2..n]"
    unfolding upto_from_one using two by simp
  show ?thesis
    unfolding get_events_by_pages [OF first info ev1 oks] callseq
    using cat by (simp add: Let_def run update_conv')
qed


theorem fetch_all_pages_witness:
  "calls (snd (get_events_by (example_events 250 100) ''venue'' (StrList [''9'']) (PInt 1000)
       PNone start)) =
     [(''get_events'', [(''venue.id'', PStr ''9''), (''per_page'', PInt 1000), (''page'', PInt 1)]),
      (''get_events'', [(''venue.id'', PStr ''9''), (''per_page'', PInt 100), (''page'', PInt 2)]),
      (''get_events'', [(''venue.id'', PStr ''9''), (''per_page'', PInt 100), (''page'', PInt 3)])]
   \<and> (\<exists>resp. fst (get_events_by (example_events 250 100) ''venue'' (StrList [''9''])
          (PInt 1000) PNone start) = Inr resp
        \<and> map_of resp ''events'' = Some (PFrame (Table [''id'']
             [(0, [Some (PInt 1)]), (0, [Some (PInt 2)]), (0, [Some (PInt 3)])])))
   \<and> calls (snd (get_events_by (example_events 0 100) ''events'' (StrList [''9'']) (PInt 1000)
       PNone start)) =
     [(''get_events'', [(''id'', PStr ''9''), (''per_page'', PInt 1000), (''page'', PInt 1)])]"
proof -
  let ?resp1 = "[(''events'', PFrame (Table [''id''] [(0, [Some (PInt 1)])])),
                 (''meta'', PDict [(''total'', PInt 250), (''per_page'', PInt 100),
                                   (''page'', PInt 1)])]"
  let ?meta = "[(''total'', PInt 250), (''per_page'', PInt 100), (''page'', PInt 1)]"
  have first: "example_events 250 100
      (page_request (lookup_field_of ''venue'') (join_ids (StrList [''9''])) (PInt 1000) 1 PNone)
      (world start) = (Inr ?resp1, 1)"
    by (simp add: example_events_def page_request_def start_def)
  have n: "3 = \<lceil>(of_int 250 / of_int 100 :: rat)\<rceil>"
    using ceiling_unique [of 3 "5 / 2 :: rat"] by simp
  have three: "max 1 (3::int) = 3" "[1..3::int] = [1, 2, 3]" "[2..3::int] = [2, 3]"
    by (simp_all add: upto_rec1)
  have pages: "list_all (page_table_ok (columns (Table [''id''] [(0, [Some (PInt 1)])])))
      (fst (run_calls (example_events 250 100)
        (map (\<lambda>q. page_request (lookup_field_of ''venue'') (join_ids (StrList [''9'']))
                (PInt 100) q PNone) [2..3]) 1))"
    by (simp add: three example_events_def page_request_def page_table_ok_def)
  from fetch_all_pages [where ge = "example_events 250 100" and req_type = "''venue''"
      and ids = "StrList [''9'']" and ?pp0.0 = "PInt 1000" and et = PNone and s = start
      and meta = ?meta and total_records = 250 and per_page = 100 and n = 3
      and ?df1.0 = "Table [''id''] [(0, [Some (PInt 1)])]",
      OF first _ _ _ _ _ _ _ n _ refl pages]
  obtain resp s' where
    r: "get_events_by (example_events 250 100) ''venue'' (StrList [''9'']) (PInt 1000) PNone start
          = (Inr resp, s')"
    and c: "calls s' = calls start @
          map (\<lambda>q. (''get_events'',
                 page_request (lookup_field_of ''venue'') (join_ids (StrList [''9'']))
                   (if q = 1 then PInt 1000 else PInt 100) q PNone)) [1..max 1 3]"
    and e: "map_of resp ''events'' =
          Some (PFrame (Table (columns (Table [''id''] [(0, [Some (PInt 1)])]))
            (rows (Table [''id''] [(0, [Some (PInt 1)])]) @
             concat (map (\<lambda>r. rows (frame_of (events_of (response_of r))))
               (fst (run_calls (example_events 250 100)
                  (map (\<lambda>q. page_request (lookup_field_of ''venue'') (join_ids (StrList [''9'']))
                     (PInt 100) q PNone) [2..3]) 1))))))"
    by auto
  have c': "calls s' =
     [(''get_events'', [(''venue.id'', PStr ''9''), (''per_page'', PInt 1000), (''page'', PInt 1)]),
      (''get_events'', [(''venue.id'', PStr ''9''), (''per_page'', PInt 100), (''page'', PInt 2)]),
      (''get_events'', [(''venue.id'', PStr ''9''), (''per_page'', PInt 100), (''page'', PInt 3)])]"
    unfolding c three
    by (simp add: start_def page_request_def lookup_field_of_def join_ids_def)
  have e': "map_of resp ''events'' = Some (PFrame (Table [''id'']
             [(0, [Some (PInt 1)]), (0, [Some (PInt 2)]), (0, [Some (PInt 3)])]))"
    unfolding e three
    by (simp add: example_events_def page_request_def response_of_def events_of_def frame_of_def)
  let ?resp0 = "[(''events'', PFrame (Table [''id''] [(0, [Some (PInt 1)])])),
                 (''meta'', PDict [(''total'', PInt 0), (''per_page'', PInt 100),
                                   (''page'', PInt 1)])]"
  have first0: "example_events 0 100
      (page_request (lookup_field_of ''events'') (join_ids (StrList [''9''])) (PInt 1000) 1 PNone)
      (world start) = (Inr ?resp0, 1)"
    by (simp add: example_events_def page_request_def start_def)
  have n0: "0 = \<lceil>(of_int 0 / of_int 100 :: rat)\<rceil>"
    by simp
  have none: "max 1 (0::int) = 1" "[1..1::int] = [1]" "[2..0::int] = []"
    by (simp_all add: upto_rec1)
  from fetch_all_pages [where ge = "example_events 0 100" and req_type = "''events''"
      and ids = "StrList [''9'']" and ?pp0.0 = "PInt 1000" and et = PNone and s = start
      and meta = "[(''total'', PInt 0), (''per_page'', PInt 100), (''page'', PInt 1)]"
      and total_records = 0 and per_page = 100 and n = 0
      and ?df1.0 = "Table [''id''] [(0, [Some (PInt 1)])]",
      OF first0 _ _ _ _ _ _ _ n0 _ refl]
  obtain resp0 s0 where
    r0: "get_events_by (example_events 0 100) ''events'' (StrList [''9'']) (PInt 1000) PNone start
          = (Inr resp0, s0)"
    and c0: "calls s0 = calls start @
          map (\<lambda>q. (''get_events'',
                 page_request (lookup_field_of ''events'') (join_ids (StrList [''9'']))
                   (if q = 1 then PInt 1000 else PInt 100) q PNone)) [1..max 1 0]"
    by (auto simp: none)
  have c0': "calls s0 =
     [(''get_events'', [(''id'', PStr ''9''), (''per_page'', PInt 1000), (''page'', PInt 1)])]"
    unfolding c0 none
    by (simp add: start_def page_request_def lookup_field_of_def join_ids_def)
  show ?thesis
    using r c' e' r0 c0' by simp
qed

text \<open>
  Without the bounds the statement fails: with a reported total of \<open>2^53 + 1\<close> and a
  reported page size of \<open>2^52\<close> the floating-point quotient rounds to 2, so two pages
  are requested where the ceiling is 3.
\<close>

theorem fetch_all_pages_counterexample:
  "length (calls (snd (get_events_by (example_events 9007199254740993 4503599627370496)
       ''events'' (StrList [''7'']) (PInt 1000) PNone start))) = 2
   \<and> nat (max 1 \<lceil>(of_int 9007199254740993 / of_int 4503599627370496 :: rat)\<rceil>) = 3"
proof -
  let ?meta = "[(''total'', PInt 9007199254740993), (''per_page'', PInt 4503599627370496),
                (''page'', PInt 1)]"
  let ?resp1 = "[(''events'', PFrame (Table [''id''] [(0, [Some (PInt 1)])])),
                 (''meta'', PDict ?meta)]"
  have first: "example_events 9007199254740993 4503599627370496
      (page_request (lookup_field_of ''events'') (join_ids (StrList [''7''])) (PInt 1000) 1 PNone)
      (world start) = (Inr ?resp1, 1)"
    by (simp add: example_events_def page_request_def start_def)
  have info: "page_info ?resp1 = Inr (PInt 4503599627370496, 2)"
    by (simp add: page_info_def dict_get_def py_getitem_def ceil_truediv_def as_int_def
        is_frame_def is_float_def truediv_example_2)
  have ev1: "map_of ?resp1 ''events'' = Some (PFrame (Table [''id''] [(0, [Some (PInt 1)])]))"
    by simp
  have two: "[2..2::int] = [2]"
    by (simp add: upto_rec1)
  have pages: "list_all page_ok
      (fst (run_calls (example_events 9007199254740993 4503599627370496)
        (map (\<lambda>q. page_request (lookup_field_of ''events'') (join_ids (StrList [''7'']))
                (PInt 4503599627370496) q PNone) [2..2]) 1))"
    by (simp add: two example_events_def page_request_def page_ok_def)
  have "calls (snd (get_events_by (example_events 9007199254740993 4503599627370496)
       ''events'' (StrList [''7'']) (PInt 1000) PNone start)) =
     calls start @
       (''get_events'', page_request (lookup_field_of ''events'') (join_ids (StrList [''7'']))
          (PInt 1000) 1 PNone) #
       map (\<lambda>q. (''get_events'', page_request (lookup_field_of ''events'')
          (join_ids (StrList [''7''])) (PInt 4503599627370496) q PNone)) [2..2]"
    using get_events_by_pages [where ge = "example_events 9007199254740993 4503599627370496"
        and s = start, OF first info ev1 pages]
    by (simp add: Let_def split: sum.splits)
  then have "length (calls (snd (get_events_by (example_events 9007199254740993 4503599627370496)
       ''events'' (StrList [''7'']) (PInt 1000) PNone start))) = 2"
    by (simp add: two start_def)
  moreover have "\<lceil>(9007199254740993 / 4503599627370496 :: rat)\<rceil> = 3"
    by (rule ceiling_unique) simp_all
  ultimately show ?thesis by simp
qed

section \<open>The aggregated result\<close>

text \<open>The example service asked for the venue 9, with a total of 250 in pages of 100.\<close>

lemma example_run_250:
  "run_calls (example_events 250 100)
     (map (\<lambda>q. page_request (lookup_field_of ''venue'') (join_ids (StrList [''9'']))
             (PInt 100) q PNone) [2..3]) 1 =
   ([Inr [(''events'', PFrame (Table [''id''] [(0, [Some (PInt 2)])])),
          (''meta'', PDict [(''total'', PInt 250), (''per_page'', PInt 100), (''page'', PInt 2)])],
     Inr [(''events'', PFrame (Table [''id''] [(0, [Some (PInt 3)])])),
          (''meta'', PDict [(''total'', PInt 250), (''per_page'', PInt 100), (''page'', PInt 3)])]],
    3)"
proof -
  have "[2..3::int] = [2, 3]" by (simp add: upto_rec1)
  then show ?thesis
    by (simp add: example_events_def page_request_def)
qed

lemma example_first_250:
  "example_events 250 100
      (page_request (lookup_field_of ''venue'') (join_ids (StrList [''9''])) (PInt 1000) 1 PNone)
      (world start) =
   (Inr [(''events'', PFrame (Table [''id''] [(0, [Some (PInt 1)])])),
         (''meta'', PDict [(''total'', PInt 250), (''per_page'', PInt 100), (''page'', PInt 1)])],
    1)"
  by (simp add: example_events_def page_request_def start_def)

lemma example_ceil_250: "ceil_truediv (PInt 250) (PInt 100) = Inr 3"
proof -
  have "\<lceil>(of_int 250 / of_int 100 :: rat)\<rceil> = 3"
    using ceiling_unique [of 3 "5 / 2 :: rat"] by simp
  moreover have "ceil_truediv (PInt 250) (PInt 100) = Inr \<lceil>(of_int 250 / of_int 100 :: rat)\<rceil>"
    by (rule ceil_truediv_exact) simp_all
  ultimately show ?thesis by simp
qed

lemma example_info_250:
  "page_info [(''events'', PFrame (Table [''id''] [(0, [Some (PInt 1)])])),
         (''meta'', PDict [(''total'', PInt 250), (''per_page'', PInt 100), (''page'', PInt 1)])]
   = Inr (PInt 100, 3)"
  by (simp add: page_info_def dict_get_def py_getitem_def example_ceil_250)

lemma last_response_has_events:
  assumes "map_of resp1 ''events'' = Some ev1" and "list_all page_ok rs"
  shows "''events'' \<in> set (map fst (last (resp1 # map response_of rs)))"
proof (cases "rs = []")
  case True
  then show ?thesis
    using assms(1) by (metis (no_types) last.simps list.simps(8) map_of_eq_None_iff
        option.distinct(1) set_map)
next
  case False
  then have "last (resp1 # map response_of rs) = response_of (last rs)"
    by (simp add: last_map)
  moreover have "page_ok (last rs)"
    using False assms(2) by (simp add: list_all_iff)
  ultimately show ?thesis
    by (auto simp: page_ok_def response_of_def split: sum.splits)
qed

text \<open>
  C9. When the first fetch and the fetches of the pages 2 to \<open>n\<close> succeed and the page
  tables concatenate to \<open>df\<close>, the result of \<open>get_events_by\<close> is the response of the
  last fetch with \<open>df\<close> stored under \<open>events\<close>: the keys are those of the last
  response, in its order, and every entry but \<open>events\<close>, the metadata among them, is the
  entry of the last response.
\<close>

theorem aggregated_result_keeps_last_response:
  assumes first: "ge (page_request (lookup_field_of req_type) (join_ids ids) pp0 1 et) (world s)
      = (Inr resp1, w1)"
    and info: "page_info resp1 = Inr (pp, n)"
    and ev1: "map_of resp1 ''events'' = Some ev1"
    and run: "run = run_calls ge
      (map (\<lambda>q. page_request (lookup_field_of req_type) (join_ids ids) pp q et) [2..n]) w1"
    and pages: "list_all page_ok (fst run)"
    and cat: "pd_concat (ev1 # map (\<lambda>r. events_of (response_of r)) (fst run)) = Inr df"
    and last: "last_resp = last (resp1 # map response_of (fst run))"
  shows "\<exists>result s'. get_events_by ge req_type ids pp0 et s = (Inr result, s')
     \<and> result = AList.update ''events'' (PFrame df) last_resp
     \<and> map fst result = map fst last_resp
     \<and> map_of result ''events'' = Some (PFrame df)
     \<and> (\<forall>k. k \<noteq> ''events'' \<longrightarrow> map_of result k = map_of last_resp k)"
proof -
  have key: "''events'' \<in> set (map fst last_resp)"
    unfolding last by (rule last_response_has_events [OF ev1 pages])
  have keys: "map fst (AList.update ''events'' (PFrame df) last_resp) = map fst last_resp"
    using key by (simp add: update_keys)
  show ?thesis
    unfolding get_events_by_pages [OF first info ev1 pages [unfolded run]]
    using cat keys by (simp add: Let_def run last update_conv')
qed

theorem aggregated_result_keeps_last_response_witness:
  "\<exists>result. fst (get_events_by (example_events 250 100) ''venue'' (StrList [''9''])
        (PInt 1000) PNone start) = Inr result
     \<and> map fst result = [''events'', ''meta'']
     \<and> map_of result ''meta'' =
         Some (PDict [(''total'', PInt 250), (''per_page'', PInt 100), (''page'', PInt 3)])
     \<and> map_of result ''events'' = Some (PFrame (Table [''id'']
             [(0, [Some (PInt 1)]), (0, [Some (PInt 2)]), (0, [Some (PInt 3)])]))"
proof -
  let ?ev = "\<lambda>p. PFrame (Table [''id''] [(0, [Some (PInt p)])])"
  let ?resp = "\<lambda>p. [(''events'', ?ev p),
         (''meta'', PDict [(''total'', PInt 250), (''per_page'', PInt 100), (''page'', PInt p)])]"
  let ?df = "Table [''id''] [(0, [Some (PInt 1)]), (0, [Some (PInt 2)]), (0, [Some (PInt 3)])]"
  have cat: "pd_concat (?ev 1 # map (\<lambda>r. events_of (response_of r)) (fst ([Inr (?resp 2), Inr (?resp 3)], 3::nat)))
      = Inr ?df"
    by (simp add: pd_concat_def concat_frames_def is_frame_def frame_of_def events_of_def
        response_of_def)
  from aggregated_result_keeps_last_response
    [where ge = "example_events 250 100" and s = start and df = ?df and last_resp = "?resp 3",
      OF example_first_250 example_info_250 _ example_run_250 [symmetric] _ cat]
  obtain result s' where
    "get_events_by (example_events 250 100) ''venue'' (StrList [''9'']) (PInt 1000) PNone start
       = (Inr result, s')"
    "map fst result = map fst (?resp 3)"
    "map_of result ''events'' = Some (PFrame ?df)"
    "\<forall>k. k \<noteq> ''events'' \<longrightarrow> map_of result k = map_of (?resp 3) k"
    by (auto simp: page_ok_def response_of_def)
  then show ?thesis
    by simp
qed

text \<open>
  C10. With the page size \<open>per_page\<close> read from the metadata of the first response, the
  calls of \<open>get_events\<close> are: the request for page 1 with the page size \<open>pp0\<close> the
  caller passed, then the requests for the pages 2 to \<open>n\<close>, each with \<open>per_page\<close>.
\<close>

theorem later_pages_use_reported_page_size:
  assumes first: "ge (page_request (lookup_field_of req_type) (join_ids ids) pp0 1 et) (world s)
      = (Inr resp1, w1)"
    and meta: "map_of resp1 ''meta'' = Some (PDict meta)"
      "map_of meta ''total'' = Some total_records"
      "map_of meta ''per_page'' = Some per_page"
    and n: "ceil_truediv total_records per_page = Inr n"
    and ev1: "map_of resp1 ''events'' = Some ev1"
    and pages: "list_all page_ok (fst (run_calls ge
      (map (\<lambda>q. page_request (lookup_field_of req_type) (join_ids ids) per_page q et) [2..n]) w1))"
  shows "calls (snd (get_events_by ge req_type ids pp0 et s)) =
       calls s @
         (''get_events'', page_request (lookup_field_of req_type) (join_ids ids) pp0 1 et) #
         map (\<lambda>q. (''get_events'',
                page_request (lookup_field_of req_type) (join_ids ids) per_page q et)) [2..n]
     \<and> map_of (page_request (lookup_field_of req_type) (join_ids ids) pp0 1 et) ''per_page''
          = Some pp0
     \<and> (\<forall>q. map_of (page_request (lookup_field_of req_type) (join_ids ids) per_page q et)
            ''per_page'' = Some per_page)"
proof -
  have info: "page_info resp1 = Inr (per_page, n)"
    using page_info_meta [OF meta] n by simp
  show ?thesis
    unfolding get_events_by_pages [OF first info ev1 pages]
    by (simp add: Let_def map_of_page_request_per_page split: sum.splits)
qed

theorem later_pages_use_reported_page_size_witness:
  "calls (snd (get_events_by (example_events 250 100) ''venue'' (StrList [''9'']) (PInt 1000)
       PNone start)) =
     [(''get_events'', [(''venue.id'', PStr ''9''), (''per_page'', PInt 1000), (''page'', PInt 1)]),
      (''get_events'', [(''venue.id'', PStr ''9''), (''per_page'', PInt 100), (''page'', PInt 2)]),
      (''get_events'', [(''venue.id'', PStr ''9''), (''per_page'', PInt 100), (''page'', PInt 3)])]"
proof -
  have three: "[2..3::int] = [2, 3]"
    by (simp add: upto_rec1)
  have pages: "list_all page_ok (fst (run_calls (example_events 250 100)
      (map (\<lambda>q. page_request (lookup_field_of ''venue'') (join_ids (StrList [''9'']))
              (PInt 100) q PNone) [2..3]) 1))"
    unfolding example_run_250 by (simp add: page_ok_def)
  from later_pages_use_reported_page_size
    [where ge = "example_events 250 100" and s = start
      and meta = "[(''total'', PInt 250), (''per_page'', PInt 100), (''page'', PInt 1)]"
      and total_records = "PInt 250" and per_page = "PInt 100",
      OF example_first_250 _ _ _ example_ceil_250 _ pages]
  show ?thesis
    by (simp add: three start_def page_request_def lookup_field_of_def join_ids_def)
qed

section \<open>Lookups by id\<close>



section \<open>The loop of the venue resolver\<close>

lemma gt_zero_mask_ints:
  assumes "list_all (\<lambda>(i, cells). case f cells of Some (PInt n) \<Rightarrow> True | _ \<Rightarrow> False) rs"
  shows "gt_zero_mask (map (\<lambda>(i, cells). (i, f cells)) rs) =
     Inr (map (\<lambda>(i, cells). case f cells of Some (PInt n) \<Rightarrow> 0 < n | _ \<Rightarrow> False) rs)"
  using assms
proof (induction rs)
  case Nil
  then show ?case by simp
next
  case (Cons a rs)
  obtain i cells where a: "a = (i, cells)"
    by (cases a)
  from Cons.prems have "case f cells of Some (PInt n) \<Rightarrow> True | _ \<Rightarrow> False"
    by (simp add: a)
  then obtain n where n: "f cells = Some (PInt n)"
    by (cases "f cells"; cases "the (f cells)") simp_all
  show ?case
    using Cons by (simp add: a n cell_gt_zero_def)
qed

lemma filter_by_flags: "map fst (filter snd (zip xs (map P xs))) = filter P xs"
  by (induction xs) auto

lemma build_rows:
  "map (\<lambda>((i, n), (j, d)). (i, [n, d, c]))
     (zip (map (\<lambda>(i, cells). (i, f cells)) K) (map (\<lambda>(i, cells). (i, g cells)) K)) =
   map (\<lambda>(i, cells). (i, [f cells, g cells, c])) K"
  by (induction K) auto

lemma venue_rows_table:
  assumes "venue_table_ok df"
  shows "venue_rows v (PFrame df) =
     Inr (if rows df = [] then None
          else Some (Table [''venue'', ''venue_id'', ''searched_venue''] (venue_output v df)))"
proof -
  let ?up = "\<lambda>cells. cell_at (columns df) cells ''num_upcoming_events''"
  have d: "distinct (columns df)" and i: "''id'' \<in> set (columns df)"
    and nm: "''name'' \<in> set (columns df)" and u: "''num_upcoming_events'' \<in> set (columns df)"
    and ints: "list_all (\<lambda>(i, cells). case ?up cells of Some (PInt n) \<Rightarrow> True | _ \<Rightarrow> False) (rows df)"
    using assms by (simp_all add: venue_table_ok_def)
  have flags: "gt_zero_mask (map (\<lambda>(i, cells). (i, ?up cells)) (rows df)) =
      Inr (map (\<lambda>(i, cells). has_upcoming (columns df) cells) (rows df))"
    using gt_zero_mask_ints [OF ints] by (simp add: has_upcoming_def)
  have kept: "df_loc df (map (\<lambda>(i, cells). has_upcoming (columns df) cells) (rows df)) =
      Table (columns df) (filter (\<lambda>(i, cells). has_upcoming (columns df) cells) (rows df))"
    by (simp add: df_loc_def filter_by_flags)
  have ga: "getattr_column (PFrame df) c = Inr (map (\<lambda>(i, cells). (i, cell_at (columns df) cells c)) (rows df))"
    if "c \<in> set (columns df)" for c
    using that d by (simp add: getattr_column_def df_getattr_def)
  have gk: "df_getattr (Table (columns df) K) c = Inr (map (\<lambda>(i, cells). (i, cell_at (columns df) cells c)) K)"
    if "c \<in> set (columns df)" for c K
    using that d by (simp add: df_getattr_def)
  show ?thesis
    unfolding venue_rows_def ga [OF i] ga [OF u] flags
    by (simp add: flags kept frame_of_def gk [OF i] gk [OF nm] venue_output_def build_rows)
qed

lemma venue_loop_run:
  assumes "list_all search_ok (fst (run_calls gv (map (\<lambda>v. [(''name'', PStr v)]) vs) (world s)))"
  shows "venue_loop gv vs acc failed s =
     (Inr (acc @ found_tables vs (fst (run_calls gv (map (\<lambda>v. [(''name'', PStr v)]) vs) (world s))),
           failed @ failed_names vs (fst (run_calls gv (map (\<lambda>v. [(''name'', PStr v)]) vs) (world s)))),
      s\<lparr>world := snd (run_calls gv (map (\<lambda>v. [(''name'', PStr v)]) vs) (world s)),
        calls := calls s @ map (\<lambda>v. (''get_venues'', [(''name'', PStr v)])) vs\<rparr>)"
  using assms
proof (induction vs arbitrary: acc failed s)
  case Nil
  then show ?case by simp
next
  case (Cons v vs)
  obtain r w' where f: "gv [(''name'', PStr v)] (world s) = (r, w')"
    by (cases "gv [(''name'', PStr v)] (world s)")
  obtain rs w'' where rest: "run_calls gv (map (\<lambda>v. [(''name'', PStr v)]) vs) w' = (rs, w'')"
    by (cases "run_calls gv (map (\<lambda>v. [(''name'', PStr v)]) vs) w'")
  let ?s' = "s\<lparr>world := w', calls := calls s @ [(''get_venues'', [(''name'', PStr v)])]\<rparr>"
  from Cons.prems have ok: "search_ok r" and oks: "list_all search_ok rs"
    by (simp_all add: f rest)
  have ih: "venue_loop gv vs acc' failed' ?s' =
     (Inr (acc' @ found_tables vs rs, failed' @ failed_names vs rs),
      ?s'\<lparr>world := w'', calls := calls ?s' @ map (\<lambda>v. (''get_venues'', [(''name'', PStr v)])) vs\<rparr>)"
    for acc' failed'
    using Cons.IH [of ?s' acc' failed'] oks rest by simp
  show ?case
  proof (cases r)
    case (Inl e)
    with ok obtain d where e: "e = ApiException d"
      by (cases e) (simp_all add: search_ok_def is_api_exception_def)
    show ?thesis
      by (simp add: invoke_def f rest Inl e ih is_api_exception_def)
  next
    case (Inr val)
    with ok obtain df where val: "val = PFrame df" and t: "venue_table_ok df"
      by (cases val) (simp_all add: search_ok_def)
    show ?thesis
      by (simp add: invoke_def f rest Inr val venue_rows_table [OF t] ih is_api_exception_def)
  qed
qed

lemma found_tables_Cons:
  "found_tables (v # vs) (r # rs) =
     (if returned_rows r then
        [Table [''venue'', ''venue_id'', ''searched_venue''] (venue_output v (frame_of (projr r)))]
      else []) @ found_tables vs rs"
  by (cases r; cases "projr r") (simp_all add: returned_rows_def frame_of_def)

lemma found_rows_Cons:
  "search_ok r \<Longrightarrow> found_rows (v # vs) (r # rs) =
     (if returned_rows r then map snd (venue_output v (frame_of (projr r))) else [])
       @ found_rows vs rs"
  by (cases r; cases "projr r")
     (simp_all add: returned_rows_def frame_of_def venue_output_def search_ok_def)

lemma found_tables_columns:
  "list_all (\<lambda>d. columns d = [''venue'', ''venue_id'', ''searched_venue'']) (found_tables vs rs)"
proof (induction vs arbitrary: rs)
  case Nil
  then show ?case by simp
next
  case (Cons v vs)
  show ?case
  proof (cases rs)
    case Nil
    then show ?thesis by simp
  next
    case (Cons r rs')
    then show ?thesis
      using Cons.IH [of rs']
      by (simp add: found_tables_Cons del: found_tables.simps)
  qed
qed

lemma found_tables_rows:
  "list_all search_ok rs \<Longrightarrow>
     concat (map (\<lambda>d. map snd (rows d)) (found_tables vs rs)) = found_rows vs rs"
proof (induction vs arbitrary: rs)
  case Nil
  then show ?case by simp
next
  case (Cons v vs)
  show ?case
  proof (cases rs)
    case Nil
    then show ?thesis by simp
  next
    case (Cons r rs')
    then show ?thesis
      using Cons.IH [of rs'] Cons.prems
      by (simp add: found_tables_Cons found_rows_Cons del: found_tables.simps found_rows.simps)
  qed
qed

lemma found_tables_empty:
  "length vs = length rs \<Longrightarrow> (found_tables vs rs = []) = (\<not> list_ex returned_rows rs)"
proof (induction vs arbitrary: rs)
  case Nil
  then show ?case by simp
next
  case (Cons v vs)
  show ?case
  proof (cases rs)
    case Nil
    then show ?thesis using Cons.prems by simp
  next
    case (Cons r rs')
    then show ?thesis
      using Cons.IH [of rs'] Cons.prems
      by (simp add: found_tables_Cons del: found_tables.simps)
  qed
qed

lemma length_run_calls: "length (fst (run_calls f reqs w)) = length reqs"
  by (induction reqs arbitrary: w) (simp_all add: split_beta)

lemma concat_frames_same_columns:
  assumes "list_all (\<lambda>d. columns d = cols) dfs"
  shows "concat_frames dfs True =
     (if dfs = [] then Inl ValueError
      else Inr (Table cols (number_from 0 (concat (map (\<lambda>d. map snd (rows d)) dfs)))))"
  using assms
  by (cases dfs) (auto simp: concat_frames_def map_concat comp_def list_all_iff)

section \<open>The venue resolver\<close>

text \<open>
  C6. Let every search of the names, made in order, either raise ApiException or return
  a table of venues. Then \<open>get_venue_ids\<close> makes all the searches, whichever of them
  fail. When some search returned at least one venue, the result is the table with the
  columns \<open>venue\<close>, \<open>venue_id\<close>, \<open>searched_venue\<close> whose rows are, for the
  searches that returned and in their order, one row per venue with
  \<open>num_upcoming_events > 0\<close>: its name, its id and the name searched for. The names
  whose search raised ApiException give no row; they are printed, in one message, when
  there is any.
\<close>

theorem venue_resolver:
  assumes run: "run = run_calls gv (map (\<lambda>v. [(''name'', PStr v)]) names) (world s)"
    and ok: "list_all search_ok (fst run)"
    and failed: "failed = failed_names names (fst run)"
  shows "get_venue_ids gv names s =
     (if list_ex returned_rows (fst run) then
        Inr (Table [''venue'', ''venue_id'', ''searched_venue'']
               (number_from 0 (found_rows names (fst run))))
      else Inl ValueError,
      s\<lparr>world := snd run,
        calls := calls s @ map (\<lambda>v. (''get_venues'', [(''name'', PStr v)])) names,
        stdout := stdout s @
          (if failed = [] then []
           else [''Could not find venues: '' @ [CHR 0x0A] @ str_join [CHR 0x0A] failed])\<rparr>)"
proof -
  have len: "length names = length (fst run)"
    by (simp add: run length_run_calls)
  have loop: "venue_loop gv names [] [] s =
     (Inr (found_tables names (fst run), failed),
      s\<lparr>world := snd run,
        calls := calls s @ map (\<lambda>v. (''get_venues'', [(''name'', PStr v)])) names\<rparr>)"
    using venue_loop_run [OF ok [unfolded run], of "[]" "[]"] by (simp add: run failed)
  have cat: "concat_frames (found_tables names (fst run)) True =
     (if list_ex returned_rows (fst run) then
        Inr (Table [''venue'', ''venue_id'', ''searched_venue'']
               (number_from 0 (found_rows names (fst run))))
      else Inl ValueError)"
    using concat_frames_same_columns [OF found_tables_columns, of names "fst run"]
      found_tables_rows [OF ok, of names] found_tables_empty [OF len]
    by simp
  show ?thesis
    by (simp add: get_venue_ids_def loop cat)
qed

lemma example_venue_run:
  "run_calls example_venues
     (map (\<lambda>v. [(''name'', PStr v)]) [''NoSuchVenueXYZ'', ''Madison Square Garden''])
     (world start) =
   ([Inl (ApiException [(''status'', PInt 400)]),
     Inr (PFrame (Table [''name'', ''num_upcoming_events'', ''id'']
           [(0, [Some (PStr ''Madison Square Garden''), Some (PInt 5), Some (PInt 11)]),
            (1, [Some (PStr ''The Garden''), Some (PInt 0), Some (PInt 12)])]))], 2)"
  by (simp add: example_venues_def start_def)

theorem venue_resolver_witness:
  "get_venue_ids example_venues [''NoSuchVenueXYZ'', ''Madison Square Garden''] start =
     (Inr (Table [''venue'', ''venue_id'', ''searched_venue'']
        [(0, [Some (PStr ''Madison Square Garden''), Some (PInt 11),
              Some (PStr ''Madison Square Garden'')])]),
      \<lparr>world = 2,
        calls = [(''get_venues'', [(''name'', PStr ''NoSuchVenueXYZ'')]),
                 (''get_venues'', [(''name'', PStr ''Madison Square Garden'')])],
        stdout = [''Could not find venues: '' @ [CHR 0x0A] @ ''NoSuchVenueXYZ'']\<rparr>)"
proof -
  have ok: "list_all search_ok (fst
     ([Inl (ApiException [(''status'', PInt 400)]),
       Inr (PFrame (Table [''name'', ''num_upcoming_events'', ''id'']
           [(0, [Some (PStr ''Madison Square Garden''), Some (PInt 5), Some (PInt 11)]),
            (1, [Some (PStr ''The Garden''), Some (PInt 0), Some (PInt 12)])]))], 2::nat))"
    by (simp add: search_ok_def is_api_exception_def venue_table_ok_def cell_at_def)
  from venue_resolver [OF example_venue_run [symmetric] ok refl]
  show ?thesis
    by (simp add: returned_rows_def venue_output_def has_upcoming_def cell_at_def
        is_api_exception_def start_def)
qed

lemma api_exception_search_ok: "is_api_exception r \<Longrightarrow> search_ok r"
  by (cases r) (simp_all add: search_ok_def is_api_exception_def)

lemma api_exception_no_rows: "is_api_exception r \<Longrightarrow> \<not> returned_rows r"
  by (cases r) (simp_all add: returned_rows_def is_api_exception_def)

lemma found_tables_all_failed:
  "list_all is_api_exception rs \<Longrightarrow> found_tables vs rs = []"
proof (induction vs arbitrary: rs)
  case Nil
  then show ?case by simp
next
  case (Cons v vs)
  show ?case
  proof (cases rs)
    case Nil
    then show ?thesis by simp
  next
    case (Cons r rs')
    then show ?thesis
      using Cons.IH [of rs'] Cons.prems api_exception_no_rows [of r]
      by (simp add: found_tables_Cons del: found_tables.simps)
  qed
qed

lemma failed_names_all_failed:
  "list_all is_api_exception rs \<Longrightarrow> length vs = length rs \<Longrightarrow> failed_names vs rs = vs"
  by (induction vs rs rule: failed_names.induct) simp_all

text \<open>
  C8. When the search of every name raises ApiException, nothing is collected and the
  concatenation raises ValueError, the error of \<open>pd.concat\<close> on an empty list: the
  caller gets an exception, not a table without rows. The names are printed.
\<close>

theorem venue_resolver_all_failed:
  assumes run: "run = run_calls gv (map (\<lambda>v. [(''name'', PStr v)]) names) (world s)"
    and all: "list_all is_api_exception (fst run)"
  shows "fst (get_venue_ids gv names s) = Inl ValueError
     \<and> fst (get_venue_ids gv names s) \<noteq> Inr (Table [''venue'', ''venue_id'', ''searched_venue''] [])
     \<and> stdout (snd (get_venue_ids gv names s)) = stdout s @
          (if names = [] then []
           else [''Could not find venues: '' @ [CHR 0x0A] @ str_join [CHR 0x0A] names])"
proof -
  have ok: "list_all search_ok (fst run)"
    using all api_exception_search_ok by (auto simp: list_all_iff)
  have len: "length names = length (fst run)"
    by (simp add: run length_run_calls)
  have loop: "venue_loop gv names [] [] s =
     (Inr ([], names),
      s\<lparr>world := snd run,
        calls := calls s @ map (\<lambda>v. (''get_venues'', [(''name'', PStr v)])) names\<rparr>)"
    using venue_loop_run [OF ok [unfolded run], of "[]" "[]"]
      found_tables_all_failed [OF all] failed_names_all_failed [OF all len]
    by (simp add: run)
  show ?thesis
    by (simp add: get_venue_ids_def loop concat_frames_def)
qed

theorem venue_resolver_all_failed_witness:
  "fst (get_venue_ids example_venues [''NoSuchVenueXYZ'', ''Nowhere Hall''] start) = Inl ValueError
   \<and> stdout (snd (get_venue_ids example_venues [''NoSuchVenueXYZ'', ''Nowhere Hall''] start)) =
       [''Could not find venues: '' @ [CHR 0x0A] @ ''NoSuchVenueXYZ'' @ [CHR 0x0A] @ ''Nowhere Hall'']"
proof -
  have run: "run_calls example_venues
     (map (\<lambda>v. [(''name'', PStr v)]) [''NoSuchVenueXYZ'', ''Nowhere Hall'']) (world start) =
     ([Inl (ApiException [(''status'', PInt 400)]), Inl (ApiException [(''status'', PInt 400)])], 2)"
    by (simp add: example_venues_def start_def)
  have all: "list_all is_api_exception (fst
     ([Inl (ApiException [(''status'', PInt 400)]), Inl (ApiException [(''status'', PInt 400)])],
      2::nat))"
    by (simp add: is_api_exception_def)
  from venue_resolver_all_failed [OF run [symmetric] all]
  show ?thesis
    by (simp add: start_def)
qed

end
